theory Spec2Isabelle
  imports Complex_Main
begin

chapter \<open>HumanEval coverage harness: model of the source and checked properties\<close>

text \<open>
  The development embeds the algorithmic parts of the repository (the assertion
  rewriter and instrumented executor of \<^verbatim>\<open>run_humaneval_openai.py\<close> and
  \<^verbatim>\<open>humaneval_coverage_summary.py\<close>, the coverage readers of
  \<^verbatim>\<open>convergence.py\<close>, \<^verbatim>\<open>humaneval_coverage_summary.py\<close> and
  \<^verbatim>\<open>generate_summary.py\<close>, the prior-test collector of \<^verbatim>\<open>convergence.py\<close>
  and the batch loop of the two runners) as HOL functions, and then states and proves the
  properties of the specification about them.  Python \<^verbatim>\<open>int\<close> is \<^typ>\<open>int\<close>,
  \<^verbatim>\<open>str\<close> is \<^typ>\<open>string\<close>, \<^verbatim>\<open>None\<close> is \<^const>\<open>None\<close>, a raised
  exception is the left injection of a sum.  Python \<^verbatim>\<open>float\<close> results
  (percentages) are modelled as exact \<^typ>\<open>real\<close> numbers.
\<close>

section \<open>Definitions\<close>

subsection \<open>Coverage entries of \<^verbatim>\<open>coverage.json\<close> (\<^verbatim>\<open>summarize_pytest_cov_style\<close>)\<close>

text \<open>
  A file entry of \<^verbatim>\<open>coverage.json\<close> is a dictionary.  The two functions read the
  keys \<^verbatim>\<open>summary\<close> (a dictionary of integer counts), \<^verbatim>\<open>missing_lines\<close> (a list
  of integers) and \<^verbatim>\<open>missing_branches\<close> (a list of pairs of line numbers, which
  the JSON may also give as \<^verbatim>\<open>null\<close>); each key can be absent.  The counts are
  integers as the coverage tool writes them, so \<^verbatim>\<open>int(...)\<close> is the identity on
  them.  \<open>other_keys\<close> says whether the dictionary has further keys, which matters
  for the test \<^verbatim>\<open>if not entry\<close> only.
\<close>

datatype 'a json_field = Absent | Null | Given 'a

record cov_summary =
  num_statements :: "int option"
  covered_lines :: "int option"
  num_branches :: "int option"
  covered_branches :: "int option"

record file_entry =
  summary :: "cov_summary option"
  missing_lines :: "int list option"
  missing_branches :: "(int \<times> int) list json_field"
  other_keys :: bool

text \<open>\<^verbatim>\<open>d.get(key, 0)\<close> on an optional integer, and \<^verbatim>\<open>entry.get("summary", {})\<close>.\<close>

definition get0 :: "int option \<Rightarrow> int" where
  "get0 v = (case v of None \<Rightarrow> 0 | Some i \<Rightarrow> i)"

definition empty_summary :: cov_summary where
  "empty_summary = \<lparr>num_statements = None, covered_lines = None, num_branches = None,
                     covered_branches = None\<rparr>"

definition get_summary :: "file_entry \<Rightarrow> cov_summary" where
  "get_summary entry = (case summary entry of None \<Rightarrow> empty_summary | Some s \<Rightarrow> s)"

text \<open>The dictionary is falsy (\<^verbatim>\<open>not entry\<close>) when it has no key at all.\<close>

definition entry_is_empty :: "file_entry \<Rightarrow> bool" where
  "entry_is_empty entry \<longleftrightarrow>
     summary entry = None \<and> missing_lines entry = None \<and> missing_branches entry = Absent
     \<and> \<not> other_keys entry"

type_synonym cov_tuple = "int \<times> int \<times> int \<times> int \<times> real \<times> real \<times> int list"

text \<open>
  \<^verbatim>\<open>humaneval_coverage_summary.py\<close>, lines 192-220:
  \<^verbatim>\<open>
  if not entry: return 0, 0, 0, 0, 0.0, 0.0, []
  summary = entry.get("summary", {})
  stmts = int(summary.get("num_statements", 0))
  covered_lines = int(summary.get("covered_lines", 0))
  miss = max(stmts - covered_lines, 0)
  missing_lines = sorted(entry.get("missing_lines", []))
  num_branches = int(summary.get("num_branches", 0))
  covered_branches = int(summary.get("covered_branches", 0))
  missing_branches = entry.get("missing_branches", [])
  brpart = len(missing_branches) if missing_branches is not None else 0
  line_percent = (covered_lines / stmts * 100.0) if stmts > 0 else 0.0
  branch_percent = (covered_branches / num_branches * 100.0 if num_branches > 0 else 0.0)
  return stmts, miss, num_branches, brpart, line_percent, branch_percent, missing_lines
  \<close>
\<close>

definition summarize_pytest_cov_style :: "file_entry \<Rightarrow> cov_tuple" where
  "summarize_pytest_cov_style entry =
     (if entry_is_empty entry then (0, 0, 0, 0, 0, 0, [])
      else
        let summ = get_summary entry;
            stmts = get0 (num_statements summ);
            covered = get0 (covered_lines summ);
            miss = max (stmts - covered) 0;
            missing = sort (case missing_lines entry of None \<Rightarrow> [] | Some ls \<Rightarrow> ls);
            branches = get0 (num_branches summ);
            covered_br = get0 (covered_branches summ);
            brpart = (case missing_branches entry of
                        Absent \<Rightarrow> 0 | Null \<Rightarrow> 0 | Given mb \<Rightarrow> int (length mb));
            line_percent = (if stmts > 0 then real_of_int covered / real_of_int stmts * 100 else 0);
            branch_percent =
              (if branches > 0 then real_of_int covered_br / real_of_int branches * 100 else 0)
        in (stmts, miss, branches, brpart, line_percent, branch_percent, missing))"

text \<open>
  \<^verbatim>\<open>generate_summary.py\<close>, lines 65-98, differs in the branch data:
  \<^verbatim>\<open>
  num_branches = int(summary.get("num_branches", 0))
  missing_branches = entry.get("missing_branches", []) or []
  brpart = len(missing_branches)
  line_percent = (covered_lines / stmts * 100.0) if stmts > 0 else 0.0
  covered_branches = num_branches - brpart
  branch_percent = (covered_branches / num_branches * 100.0 if num_branches > 0 else 0.0)
  \<close>
\<close>

definition summarize_pytest_cov_style_gs :: "file_entry \<Rightarrow> cov_tuple" where
  "summarize_pytest_cov_style_gs entry =
     (if entry_is_empty entry then (0, 0, 0, 0, 0, 0, [])
      else
        let summ = get_summary entry;
            stmts = get0 (num_statements summ);
            covered = get0 (covered_lines summ);
            miss = max (stmts - covered) 0;
            missing = sort (case missing_lines entry of None \<Rightarrow> [] | Some ls \<Rightarrow> ls);
            branches = get0 (num_branches summ);
            mb = (case missing_branches entry of Absent \<Rightarrow> [] | Null \<Rightarrow> [] | Given l \<Rightarrow> l);
            brpart = int (length mb);
            line_percent = (if stmts > 0 then real_of_int covered / real_of_int stmts * 100 else 0);
            covered_br = branches - brpart;
            branch_percent =
              (if branches > 0 then real_of_int covered_br / real_of_int branches * 100 else 0)
        in (stmts, miss, branches, brpart, line_percent, branch_percent, missing))"

text \<open>The components of the returned tuple.\<close>

definition line_percent_of :: "cov_tuple \<Rightarrow> real" where
  "line_percent_of r = (case r of (stmts, miss, br, brpart, lp, bp, missing) \<Rightarrow> lp)"

definition branch_percent_of :: "cov_tuple \<Rightarrow> real" where
  "branch_percent_of r = (case r of (stmts, miss, br, brpart, lp, bp, missing) \<Rightarrow> bp)"

text \<open>The tuple without its branch percentage.\<close>

definition counts_of :: "cov_tuple \<Rightarrow> int \<times> int \<times> int \<times> int \<times> real \<times> int list" where
  "counts_of r =
     (case r of (stmts, miss, br, brpart, lp, bp, missing) \<Rightarrow> (stmts, miss, br, brpart, lp, missing))"

subsection \<open>The XML coverage report (\<^verbatim>\<open>parse_coverage_xml\<close>)\<close>

text \<open>
  The report file is absent, empty, not well-formed XML, or a document of which only the
  attributes of the root element are read.  Python's \<^verbatim>\<open>float(s)\<close> on a string is
  a parameter \<open>flt\<close> of the model: \<open>flt s = None\<close> when \<^verbatim>\<open>float(s)\<close> raises
  \<^verbatim>\<open>ValueError\<close>, and the number otherwise (infinities and not-a-number are left
  out).  The default \<^verbatim>\<open>"0"\<close> of the count attributes is read as the number 0.

  \<^verbatim>\<open>
  if not xml_path.exists() or xml_path.stat().st_size == 0: return None, None
  root = ET.parse(xml_path).getroot()
  def to_pct(attr_name):
      val = root.attrib.get(attr_name)
      try: return None if val is None else float(val) * 100.0
      except Exception: return None
  line_pct = to_pct("line-rate")
  branch_pct = to_pct("branch-rate")
  if line_pct is None:
      try:
          lines_valid = float(root.attrib.get("lines-valid", "0"))
          lines_covered = float(root.attrib.get("lines-covered", "0"))
          if lines_valid > 0: line_pct = 100.0 * (lines_covered / lines_valid)
      except Exception: pass
  if branch_pct is None: (the same with branches-valid, branches-covered)
  return line_pct, branch_pct
  \<close>
\<close>

datatype xml_file = NoFile | ZeroBytes | NotWellFormed | Document "(string \<times> string) list"

datatype xml_error = ParseError

definition to_pct :: "(string \<Rightarrow> real option) \<Rightarrow> (string \<times> string) list \<Rightarrow> string \<Rightarrow> real option" where
  "to_pct flt attrib attr_name =
     (case map_of attrib attr_name of
        None \<Rightarrow> None
      | Some val \<Rightarrow> (case flt val of None \<Rightarrow> None | Some r \<Rightarrow> Some (r * 100)))"

text \<open>\<^verbatim>\<open>float(root.attrib.get(name, "0"))\<close>: \<open>None\<close> when the conversion raises.\<close>

definition float_attr :: "(string \<Rightarrow> real option) \<Rightarrow> (string \<times> string) list \<Rightarrow> string \<Rightarrow> real option" where
  "float_attr flt attrib name = (case map_of attrib name of None \<Rightarrow> Some 0 | Some s \<Rightarrow> flt s)"

text \<open>The fallback block: the percentage derived from the counts, when it is assigned.\<close>

definition from_counts :: "(string \<Rightarrow> real option) \<Rightarrow> (string \<times> string) list \<Rightarrow> string \<Rightarrow> string \<Rightarrow> real option" where
  "from_counts flt attrib valid_name covered_name =
     (case float_attr flt attrib valid_name of
        None \<Rightarrow> None
      | Some valid \<Rightarrow>
          (case float_attr flt attrib covered_name of
             None \<Rightarrow> None
           | Some covered \<Rightarrow> if valid > 0 then Some (100 * (covered / valid)) else None))"

definition parse_coverage_xml :: "(string \<Rightarrow> real option) \<Rightarrow> xml_file \<Rightarrow> xml_error + (real option \<times> real option)" where
  "parse_coverage_xml flt f =
     (case f of
        NoFile \<Rightarrow> Inr (None, None)
      | ZeroBytes \<Rightarrow> Inr (None, None)
      | NotWellFormed \<Rightarrow> Inl ParseError
      | Document attrib \<Rightarrow>
          let line_pct = to_pct flt attrib ''line-rate'';
              branch_pct = to_pct flt attrib ''branch-rate'';
              line_pct = (if line_pct = None
                          then from_counts flt attrib ''lines-valid'' ''lines-covered''
                          else line_pct);
              branch_pct = (if branch_pct = None
                            then from_counts flt attrib ''branches-valid'' ''branches-covered''
                            else branch_pct)
          in Inr (line_pct, branch_pct))"

text \<open>A small reader of decimal strings, used to run the model on examples.\<close>

definition example_float :: "string \<Rightarrow> real option" where
  "example_float s =
     (if s = ''0'' then Some 0 else if s = ''1'' then Some 1
      else if s = ''0.5'' then Some (1 / 2) else if s = ''0.25'' then Some (1 / 4)
      else if s = ''10'' then Some 10 else if s = ''9'' then Some 9
      else if s = ''4'' then Some 4 else None)"

subsection \<open>Python string helpers\<close>

text \<open>\<^verbatim>\<open>str(n)\<close> for an integer: decimal digits, with a leading minus sign.\<close>

definition digit_char :: "nat \<Rightarrow> char" where
  "digit_char d = ''0123456789'' ! d"

fun str_nat :: "nat \<Rightarrow> string" where
  "str_nat n = (if n < 10 then [digit_char n] else str_nat (n div 10) @ [digit_char (n mod 10)])"

declare str_nat.simps [simp del]

definition str_int :: "int \<Rightarrow> string" where
  "str_int i = (if i < 0 then CHR ''-'' # str_nat (nat (- i)) else str_nat (nat i))"

text \<open>\<^verbatim>\<open>sep.join(parts)\<close>.\<close>

fun join :: "'a list \<Rightarrow> 'a list list \<Rightarrow> 'a list" where
  "join sep [] = []"
| "join sep [x] = x"
| "join sep (x # y # ys) = x @ sep @ join sep (y # ys)"

subsection \<open>Missing-line compression (\<^verbatim>\<open>compress_line_ranges\<close>)\<close>

text \<open>
  The function is defined twice in the repository, in
  \<^verbatim>\<open>humaneval_coverage_summary.py\<close> (lines 223-251) and in
  \<^verbatim>\<open>generate_summary.py\<close> (lines 101-119), with the same statements; one
  definition embeds both.

  \<^verbatim>\<open>
  if not lines: return ""
  ranges = []
  start = prev = lines[0]
  for ln in lines[1:]:
      if ln == prev + 1: prev = ln
      else:
          if start == prev: ranges.append(str(start))
          else: ranges.append(f"{start}-{prev}")
          start = prev = ln
  if start == prev: ranges.append(str(start))
  else: ranges.append(f"{start}-{prev}")
  return ", ".join(ranges)
  \<close>
  \<open>fmt_range\<close> is the \<^verbatim>\<open>if start == prev\<close> block that occurs twice;
  \<open>compress_loop\<close> is the \<^verbatim>\<open>for\<close> loop over \<^verbatim>\<open>lines[1:]\<close> with its
  three variables.
\<close>

definition fmt_range :: "int \<Rightarrow> int \<Rightarrow> string" where
  "fmt_range start prev =
     (if start = prev then str_int start else str_int start @ ''-'' @ str_int prev)"

fun compress_loop :: "int \<Rightarrow> int \<Rightarrow> string list \<Rightarrow> int list \<Rightarrow> int \<times> int \<times> string list" where
  "compress_loop start prev ranges [] = (start, prev, ranges)"
| "compress_loop start prev ranges (lno # rest) =
     (if lno = prev + 1 then compress_loop start lno ranges rest
      else compress_loop lno lno (ranges @ [fmt_range start prev]) rest)"

definition compress_line_ranges :: "int list \<Rightarrow> string" where
  "compress_line_ranges lines =
     (case lines of
        [] \<Rightarrow> []
      | l0 # rest \<Rightarrow>
          (case compress_loop l0 l0 [] rest of
             (start, prev, ranges) \<Rightarrow> join '', '' (ranges @ [fmt_range start prev])))"

text \<open>
  The specification's reading, independent of the loop: \<open>runs xs\<close> cuts the list into
  its runs of consecutive numbers, scanning from the right; a run is the pair of its first
  and last number.  \<open>maximal_runs\<close> says that no run could be extended by its
  successor, \<open>separated_runs\<close> that there is a gap between two neighbours, and
  \<open>render_run\<close> is the specification's rendering of one run.
\<close>

fun runs :: "int list \<Rightarrow> (int \<times> int) list" where
  "runs [] = []"
| "runs (x # xs) =
     (case runs xs of
        [] \<Rightarrow> [(x, x)]
      | (a, b) # rs \<Rightarrow> if a = x + 1 then (x, b) # rs else (x, x) # (a, b) # rs)"

fun maximal_runs :: "(int \<times> int) list \<Rightarrow> bool" where
  "maximal_runs [] = True"
| "maximal_runs [r] = True"
| "maximal_runs ((a, b) # (c, d) # rs) = (c \<noteq> b + 1 \<and> maximal_runs ((c, d) # rs))"

fun separated_runs :: "(int \<times> int) list \<Rightarrow> bool" where
  "separated_runs [] = True"
| "separated_runs [r] = True"
| "separated_runs ((a, b) # (c, d) # rs) = (b + 1 < c \<and> separated_runs ((c, d) # rs))"

definition render_run :: "int \<times> int \<Rightarrow> string" where
  "render_run r = (case r of (a, b) \<Rightarrow> if a = b then str_int a else str_int a @ ''-'' @ str_int b)"

subsection \<open>Prior tests within a character budget (\<^verbatim>\<open>collect_prior_tests_text\<close>)\<close>

text \<open>
  \<^verbatim>\<open>convergence.py\<close>, lines 203-223.  The directory listing
  \<^verbatim>\<open>sorted(TESTS_DIR.glob(...))\<close> is the input \<open>files\<close>: the name of each file
  with its text, in sorted order.  Lengths count the characters of a text.
  \<^verbatim>\<open>
  texts = []; total = 0
  for f in files:
      if f.name.endswith(f"{current_iter_idx:02d}.py"): continue
      t = f"# {f.name}\n" + f.read_text(encoding='utf-8')
      if total + len(t) > PRIOR_TESTS_CHAR_BUDGET:
          remaining = PRIOR_TESTS_CHAR_BUDGET - total
          if remaining > 200:
              t = t[:remaining] + "\n# ... (truncated)\n"
              texts.append(t)
          break
      texts.append(t)
      total += len(t)
  if not texts: return "None"
  return "\n\n".join(texts)
  \<close>
  \<open>fmt02d\<close> is the format \<^verbatim>\<open>{:02d}\<close>: the decimal number, with a zero in
  front when it has one character only.
\<close>

definition PRIOR_TESTS_CHAR_BUDGET :: int where
  "PRIOR_TESTS_CHAR_BUDGET = 6000"

definition newline :: char where
  "newline = CHR 0x0A"

definition fmt02d :: "int \<Rightarrow> string" where
  "fmt02d i = (let s = str_int i in if length s < 2 then CHR ''0'' # s else s)"

definition endswith :: "string \<Rightarrow> string \<Rightarrow> bool" where
  "endswith s suffix \<longleftrightarrow>
     length suffix \<le> length s \<and> drop (length s - length suffix) s = suffix"

definition is_current_file :: "int \<Rightarrow> string \<Rightarrow> bool" where
  "is_current_file current_iter_idx name = endswith name (fmt02d current_iter_idx @ ''.py'')"

definition with_header :: "string \<times> string \<Rightarrow> string" where
  "with_header f = (case f of (name, content) \<Rightarrow> ''# '' @ name @ [newline] @ content)"

definition truncation_marker :: string where
  "truncation_marker = [newline] @ ''# ... (truncated)'' @ [newline]"

fun collect_loop :: "int \<Rightarrow> string list \<Rightarrow> int \<Rightarrow> (string \<times> string) list \<Rightarrow> string list" where
  "collect_loop idx texts total_len [] = texts"
| "collect_loop idx texts total_len (f # fs) =
     (if is_current_file idx (fst f) then collect_loop idx texts total_len fs
      else
        let t = with_header f in
        if total_len + int (length t) > PRIOR_TESTS_CHAR_BUDGET then
          (let remaining = PRIOR_TESTS_CHAR_BUDGET - total_len in
           if remaining > 200 then texts @ [take (nat remaining) t @ truncation_marker]
           else texts)
        else collect_loop idx (texts @ [t]) (total_len + int (length t)) fs)"

definition collect_prior_tests_text :: "int \<Rightarrow> (string \<times> string) list \<Rightarrow> string" where
  "collect_prior_tests_text current_iter_idx files =
     (let texts = collect_loop current_iter_idx [] 0 files in
      if texts = [] then ''None'' else join [newline, newline] texts)"

text \<open>
  The specification's reading, independent of the loop.  \<open>prior_files\<close> are the files
  of the directory other than the one of the current round; \<open>chars_of_first k ts\<close> is
  the cumulative character count of the first \<open>k\<close> texts; \<open>whole_files_kept\<close> is
  the number of leading texts whose cumulative count stays within the budget; and
  \<open>budgeted_texts\<close> keeps these whole, followed by the next text cut to the remaining
  budget and marked when the remaining budget exceeds the threshold.
\<close>

definition prior_files :: "int \<Rightarrow> (string \<times> string) list \<Rightarrow> (string \<times> string) list" where
  "prior_files idx files = filter (\<lambda>f. \<not> is_current_file idx (fst f)) files"

definition chars_of_first :: "nat \<Rightarrow> string list \<Rightarrow> int" where
  "chars_of_first k ts = int (sum_list (map length (take k ts)))"

definition whole_files_kept :: "int \<Rightarrow> string list \<Rightarrow> nat" where
  "whole_files_kept budget ts =
     length (takeWhile (\<lambda>k. chars_of_first k ts \<le> budget) [1..<Suc (length ts)])"

definition budgeted_texts :: "int \<Rightarrow> int \<Rightarrow> string list \<Rightarrow> string list" where
  "budgeted_texts budget threshold ts =
     (let k = whole_files_kept budget ts;
          remaining = budget - chars_of_first k ts
      in if k = length ts then ts
         else if remaining > threshold
              then take k ts @ [take (nat remaining) (ts ! k) @ truncation_marker]
              else take k ts)"

text \<open>
  The claim's reading of which files are taken: the files of the rounds before the current
  one, a round's file being the one whose name ends in \<^verbatim>\<open>_iter_NN.py\<close> with the
  round's two-digit number (the name that \<^verbatim>\<open>write_test_file\<close> gives it).
\<close>

definition round_file :: "int \<Rightarrow> string \<Rightarrow> bool" where
  "round_file j name = endswith name (''_iter_'' @ fmt02d j @ ''.py'')"

definition earlier_rounds :: "int \<Rightarrow> (string \<times> string) list \<Rightarrow> (string \<times> string) list" where
  "earlier_rounds idx files = filter (\<lambda>f. \<exists>j \<in> set [1..idx - 1]. round_file j (fst f)) files"

definition claimed_prior_tests_text :: "int \<Rightarrow> (string \<times> string) list \<Rightarrow> string" where
  "claimed_prior_tests_text idx files =
     (let ts = map with_header (earlier_rounds idx files) in
      if ts = [] then ''None''
      else join [newline, newline] (budgeted_texts PRIOR_TESTS_CHAR_BUDGET 200 ts))"

subsection \<open>Syntax trees of test modules\<close>

text \<open>
  The fragment of Python's \<^verbatim>\<open>ast\<close> that the development covers.  Expressions are
  constants, names, calls and the comparison \<^verbatim>\<open>==\<close>; statements are
  \<^verbatim>\<open>assert\<close> (test, optional message, line number), expression statements,
  \<^verbatim>\<open>return\<close>, \<^verbatim>\<open>if\<close> with its two blocks, and \<^verbatim>\<open>def\<close> (name, the names
  of \<^verbatim>\<open>args.args\<close>, body).  A module is the list of its top-level statements.
\<close>

datatype const = CNone | CBool bool | CInt int | CStr string

datatype expr =
    Constant const
  | Name string
  | Call expr "expr list"
  | CompareEq expr expr

datatype stmt =
    Assert expr "expr option" int
  | Expr expr
  | Return "expr option"
  | IfStmt expr "stmt list" "stmt list"
  | FunctionDef string "string list" "stmt list"

subsection \<open>The assertion rewriter (\<^verbatim>\<open>_AssertRecorder\<close>, \<^verbatim>\<open>_CheckOnly\<close>)\<close>

text \<open>
  \<^verbatim>\<open>
  class _AssertRecorder(ast.NodeTransformer):
      def visit_Assert(self, node):
          test_expr = node.test
          msg_expr = node.msg if node.msg is not None else ast.Constant(value=None)
          call = ast.Call(func=ast.Name(id="__rec", ctx=ast.Load()),
                          args=[test_expr, msg_expr, ast.Constant(value=node.lineno)], keywords=[])
          return ast.Expr(value=call)
  \<close>
  A \<^verbatim>\<open>NodeTransformer\<close> without a visitor for a node class visits the children of the
  node, so the recorder reaches the assert statements at every depth: in the blocks of an
  \<^verbatim>\<open>if\<close> and in the bodies of nested definitions.  Expressions contain no
  statement and are returned as they are.
\<close>

definition msg_or_none :: "expr option \<Rightarrow> expr" where
  "msg_or_none msg = (case msg of None \<Rightarrow> Constant CNone | Some e \<Rightarrow> e)"

fun AssertRecorder :: "stmt \<Rightarrow> stmt" where
  "AssertRecorder (Assert test msg lineno) =
     Expr (Call (Name ''__rec'') [test, msg_or_none msg, Constant (CInt lineno)])"
| "AssertRecorder (Expr e) = Expr e"
| "AssertRecorder (Return r) = Return r"
| "AssertRecorder (IfStmt c body orelse) =
     IfStmt c (map AssertRecorder body) (map AssertRecorder orelse)"
| "AssertRecorder (FunctionDef name args body) = FunctionDef name args (map AssertRecorder body)"

text \<open>
  \<^verbatim>\<open>
  class _CheckOnly(ast.NodeTransformer):
      def visit_FunctionDef(self, node):
          is_check = node.name == "check" and any(arg.arg == "candidate" for arg in node.args.args)
          if is_check:
              node = _AssertRecorder().visit(node)
              ast.fix_missing_locations(node)
          return node
  \<close>
  \<^verbatim>\<open>visit_FunctionDef\<close> does not visit the children of a definition, so nothing
  inside a definition that is not the check routine is rewritten; an \<^verbatim>\<open>if\<close> at
  the top level has no visitor and its blocks are visited.
\<close>

definition is_check :: "string \<Rightarrow> string list \<Rightarrow> bool" where
  "is_check name args \<longleftrightarrow> name = ''check'' \<and> ''candidate'' \<in> set args"

fun CheckOnly :: "stmt \<Rightarrow> stmt" where
  "CheckOnly (FunctionDef name args body) =
     (if is_check name args then AssertRecorder (FunctionDef name args body)
      else FunctionDef name args body)"
| "CheckOnly (IfStmt c body orelse) = IfStmt c (map CheckOnly body) (map CheckOnly orelse)"
| "CheckOnly (Assert test msg lineno) = Assert test msg lineno"
| "CheckOnly (Expr e) = Expr e"
| "CheckOnly (Return r) = Return r"

text \<open>
  \<^verbatim>\<open>_instrument_test_code\<close> on the tree that \<^verbatim>\<open>ast.parse\<close> returns (a source
  that does not parse is the case \<open>ParseFailed\<close> of the executor's input below).
\<close>

definition instrument_test_code :: "stmt list \<Rightarrow> stmt list" where
  "instrument_test_code tree = map CheckOnly tree"

text \<open>
  What a routine contains.  \<open>asserts_of\<close> lists the assert statements of a statement at
  every depth, in source order; \<open>direct_asserts\<close> lists those that are statements of the
  block itself.  \<open>hook_calls\<close> lists the argument lists of the calls of the name
  \<^verbatim>\<open>__rec\<close> at every depth, also inside expressions; \<open>direct_hook_calls\<close> those of
  the expression statements of the block itself.  \<open>hook_args\<close> is the argument list that
  the rewriter builds for an assert statement.
\<close>

fun asserts_of :: "stmt \<Rightarrow> (expr \<times> expr option \<times> int) list" where
  "asserts_of (Assert test msg lineno) = [(test, msg, lineno)]"
| "asserts_of (Expr e) = []"
| "asserts_of (Return r) = []"
| "asserts_of (IfStmt c body orelse) =
     concat (map asserts_of body) @ concat (map asserts_of orelse)"
| "asserts_of (FunctionDef name args body) = concat (map asserts_of body)"

fun direct_asserts :: "stmt list \<Rightarrow> (expr \<times> expr option \<times> int) list" where
  "direct_asserts [] = []"
| "direct_asserts (Assert test msg lineno # ss) = (test, msg, lineno) # direct_asserts ss"
| "direct_asserts (s # ss) = direct_asserts ss"

fun hook_calls_expr :: "expr \<Rightarrow> expr list list" where
  "hook_calls_expr (Constant k) = []"
| "hook_calls_expr (Name n) = []"
| "hook_calls_expr (Call f args) =
     (if f = Name ''__rec'' then [args] else [])
     @ hook_calls_expr f @ concat (map hook_calls_expr args)"
| "hook_calls_expr (CompareEq a b) = hook_calls_expr a @ hook_calls_expr b"

fun hook_calls :: "stmt \<Rightarrow> expr list list" where
  "hook_calls (Assert test msg lineno) =
     hook_calls_expr test @ (case msg of None \<Rightarrow> [] | Some e \<Rightarrow> hook_calls_expr e)"
| "hook_calls (Expr e) = hook_calls_expr e"
| "hook_calls (Return r) = (case r of None \<Rightarrow> [] | Some e \<Rightarrow> hook_calls_expr e)"
| "hook_calls (IfStmt c body orelse) =
     hook_calls_expr c @ concat (map hook_calls body) @ concat (map hook_calls orelse)"
| "hook_calls (FunctionDef name args body) = concat (map hook_calls body)"

fun direct_hook_calls :: "stmt list \<Rightarrow> expr list list" where
  "direct_hook_calls [] = []"
| "direct_hook_calls (Expr (Call f args) # ss) =
     (if f = Name ''__rec'' then args # direct_hook_calls ss else direct_hook_calls ss)"
| "direct_hook_calls (s # ss) = direct_hook_calls ss"

definition hook_args :: "expr \<times> expr option \<times> int \<Rightarrow> expr list" where
  "hook_args a = (case a of (test, msg, lineno) \<Rightarrow> [test, msg_or_none msg, Constant (CInt lineno)])"

text \<open>
  An example module: a helper with an assert statement, and a check routine with a direct
  assert statement with a message, one under an \<^verbatim>\<open>if\<close>, and a last direct one.
  \<^verbatim>\<open>
  def helper(x):
      assert x
  def check(candidate):
      assert candidate(1) == 1, "one"
      if candidate(0):
          assert candidate(2)
      assert candidate(3)
  \<close>
\<close>

definition example_test :: "stmt list" where
  "example_test =
     [FunctionDef ''helper'' [''x''] [Assert (Name ''x'') None 2],
      FunctionDef ''check'' [''candidate'']
        [Assert (CompareEq (Call (Name ''candidate'') [Constant (CInt 1)]) (Constant (CInt 1)))
           (Some (Constant (CStr ''one''))) 4,
         IfStmt (Call (Name ''candidate'') [Constant (CInt 0)])
           [Assert (Call (Name ''candidate'') [Constant (CInt 2)]) None 6] [],
         Assert (Call (Name ''candidate'') [Constant (CInt 3)]) None 7]]"

subsection \<open>Running the rewritten module (\<^verbatim>\<open>run_check_and_count_asserts\<close>)\<close>

text \<open>
  The executor hands the rewritten tree to \<^verbatim>\<open>compile\<close> and \<^verbatim>\<open>exec\<close> and then
  calls the \<^verbatim>\<open>check\<close> function of the namespace.  To say what the recorded outcomes
  are, the Python fragment above gets an evaluator.  Values are constants, the recording
  hook \<^verbatim>\<open>__rec\<close>, the candidate, and functions defined by \<^verbatim>\<open>def\<close>.  An
  exception is the name of its type with the text of \<^verbatim>\<open>str(e)\<close>; only exceptions
  that \<^verbatim>\<open>except Exception\<close> catches are modelled.  The candidate is a function from
  constant arguments to a constant or an exception.

  The evaluator answers \<open>Unsupported\<close> where the program leaves the fragment: a call of
  a function defined in the module, a name that is bound nowhere in the module (a builtin
  or a \<^verbatim>\<open>NameError\<close>), a non-constant argument of the candidate, a hook call that
  does not have three arguments with an integer line number, and \<^verbatim>\<open>str\<close> of
  a function.  The executor's result is then \<open>None\<close>: the model says nothing.
\<close>

datatype pyval = Lit const | Hook | Candidate | Func string "string list" "stmt list"

type_synonym exn = "string \<times> string"

datatype 'a outcome = Val 'a | Raised exn | Unsupported

type_synonym record_t = "int \<times> bool \<times> string option"

type_synonym candidate = "const list \<Rightarrow> exn + const"

text \<open>\<^verbatim>\<open>bool(v)\<close>, \<^verbatim>\<open>str(v)\<close>, \<^verbatim>\<open>type(v).__name__\<close> and \<^verbatim>\<open>==\<close>.\<close>

fun truthy :: "pyval \<Rightarrow> bool" where
  "truthy (Lit CNone) = False"
| "truthy (Lit (CBool b)) = b"
| "truthy (Lit (CInt i)) = (i \<noteq> 0)"
| "truthy (Lit (CStr s)) = (s \<noteq> [])"
| "truthy v = True"

fun str_const :: "const \<Rightarrow> string" where
  "str_const CNone = ''None''"
| "str_const (CBool b) = (if b then ''True'' else ''False'')"
| "str_const (CInt i) = str_int i"
| "str_const (CStr s) = s"

fun type_name :: "const \<Rightarrow> string" where
  "type_name CNone = ''NoneType''"
| "type_name (CBool b) = ''bool''"
| "type_name (CInt i) = ''int''"
| "type_name (CStr s) = ''str''"

fun const_eq :: "const \<Rightarrow> const \<Rightarrow> bool" where
  "const_eq CNone CNone = True"
| "const_eq (CBool a) (CBool b) = (a = b)"
| "const_eq (CBool a) (CInt i) = ((if a then 1 else 0) = i)"
| "const_eq (CInt i) (CBool b) = (i = (if b then 1 else 0))"
| "const_eq (CInt i) (CInt j) = (i = j)"
| "const_eq (CStr s) (CStr t) = (s = t)"
| "const_eq a b = False"

fun py_eq :: "pyval \<Rightarrow> pyval \<Rightarrow> bool" where
  "py_eq (Lit a) (Lit b) = const_eq a b"
| "py_eq u v = (u = v)"

text \<open>
  The recording hook:
  \<^verbatim>\<open>
  def __rec(test_value, msg, lineno):
      ok = bool(test_value)
      records.append((lineno, ok, str(msg) if msg is not None else None))
  \<close>
\<close>

fun hook_msg :: "pyval \<Rightarrow> string option outcome" where
  "hook_msg (Lit CNone) = Val None"
| "hook_msg (Lit k) = Val (Some (str_const k))"
| "hook_msg v = Unsupported"

fun rec_hook :: "record_t list \<Rightarrow> pyval list \<Rightarrow> record_t list \<times> pyval outcome" where
  "rec_hook records [test_value, msg, Lit (CInt lineno)] =
     (case hook_msg msg of
        Val m \<Rightarrow> (records @ [(lineno, truthy test_value, m)], Val (Lit CNone))
      | Raised e \<Rightarrow> (records, Raised e)
      | Unsupported \<Rightarrow> (records, Unsupported))"
| "rec_hook records args = (records, Unsupported)"

text \<open>The constants among the values, when all of them are constants.\<close>

fun consts_of :: "pyval list \<Rightarrow> const list option" where
  "consts_of [] = Some []"
| "consts_of (Lit k # vs) = (case consts_of vs of None \<Rightarrow> None | Some ks \<Rightarrow> Some (k # ks))"
| "consts_of (v # vs) = None"

text \<open>Calling a value on evaluated arguments.\<close>

fun apply_value :: "candidate \<Rightarrow> record_t list \<Rightarrow> pyval \<Rightarrow> pyval list \<Rightarrow> record_t list \<times> pyval outcome" where
  "apply_value cand records Hook args = rec_hook records args"
| "apply_value cand records Candidate args =
     (case consts_of args of
        None \<Rightarrow> (records, Unsupported)
      | Some ks \<Rightarrow> (case cand ks of Inl e \<Rightarrow> (records, Raised e) | Inr k \<Rightarrow> (records, Val (Lit k))))"
| "apply_value cand records (Func name args body) vs = (records, Unsupported)"
| "apply_value cand records (Lit k) vs =
     (records, Raised (''TypeError'', [CHR 0x27] @ type_name k @ [CHR 0x27] @ '' object is not callable''))"

text \<open>
  Expressions are evaluated with the function \<open>look\<close> that resolves names and with the
  list of records made so far: the callee first, then the arguments from left to right,
  then the call.
\<close>

fun eval :: "candidate \<Rightarrow> (string \<Rightarrow> pyval option) \<Rightarrow> record_t list \<Rightarrow> expr \<Rightarrow> record_t list \<times> pyval outcome"
  and eval_list :: "candidate \<Rightarrow> (string \<Rightarrow> pyval option) \<Rightarrow> record_t list \<Rightarrow> expr list \<Rightarrow> record_t list \<times> pyval list outcome"
  where
  "eval cand look records (Constant k) = (records, Val (Lit k))"
| "eval cand look records (Name n) =
     (case look n of None \<Rightarrow> (records, Unsupported) | Some v \<Rightarrow> (records, Val v))"
| "eval cand look records (Call f args) =
     (case eval cand look records f of
        (records1, Val fv) \<Rightarrow>
          (case eval_list cand look records1 args of
             (records2, Val vs) \<Rightarrow> apply_value cand records2 fv vs
           | (records2, Raised e) \<Rightarrow> (records2, Raised e)
           | (records2, Unsupported) \<Rightarrow> (records2, Unsupported))
      | (records1, Raised e) \<Rightarrow> (records1, Raised e)
      | (records1, Unsupported) \<Rightarrow> (records1, Unsupported))"
| "eval cand look records (CompareEq a b) =
     (case eval cand look records a of
        (records1, Val u) \<Rightarrow>
          (case eval cand look records1 b of
             (records2, Val v) \<Rightarrow> (records2, Val (Lit (CBool (py_eq u v))))
           | (records2, Raised e) \<Rightarrow> (records2, Raised e)
           | (records2, Unsupported) \<Rightarrow> (records2, Unsupported))
      | (records1, Raised e) \<Rightarrow> (records1, Raised e)
      | (records1, Unsupported) \<Rightarrow> (records1, Unsupported))"
| "eval_list cand look records [] = (records, Val [])"
| "eval_list cand look records (e # es) =
     (case eval cand look records e of
        (records1, Val v) \<Rightarrow>
          (case eval_list cand look records1 es of
             (records2, Val vs) \<Rightarrow> (records2, Val (v # vs))
           | (records2, Raised x) \<Rightarrow> (records2, Raised x)
           | (records2, Unsupported) \<Rightarrow> (records2, Unsupported))
      | (records1, Raised x) \<Rightarrow> (records1, Raised x)
      | (records1, Unsupported) \<Rightarrow> (records1, Unsupported))"

text \<open>
  The state of a run: the namespace \<^verbatim>\<open>env\<close> of the module (the globals), the local
  variables of the running function, and the records.  At the top level of the module
  names are read from and bound in the namespace; in a function a name that the function
  binds (a parameter or a nested definition) is local, every other name is read from the
  namespace.
\<close>

record state =
  globs :: "(string \<times> pyval) list"
  locs :: "(string \<times> pyval) list"
  recs :: "record_t list"

datatype scope = ModuleLevel | InFunction "string list"

fun bound_names :: "stmt \<Rightarrow> string list" where
  "bound_names (FunctionDef name args body) = [name]"
| "bound_names (IfStmt c body orelse) = concat (map bound_names body) @ concat (map bound_names orelse)"
| "bound_names s = []"

definition local_names :: "string list \<Rightarrow> stmt list \<Rightarrow> string list" where
  "local_names args body = args @ concat (map bound_names body)"

definition lookup :: "scope \<Rightarrow> state \<Rightarrow> string \<Rightarrow> pyval option" where
  "lookup sc st n =
     (case sc of
        ModuleLevel \<Rightarrow> map_of (globs st) n
      | InFunction ls \<Rightarrow> if n \<in> set ls then map_of (locs st) n else map_of (globs st) n)"

definition bind :: "scope \<Rightarrow> state \<Rightarrow> string \<Rightarrow> pyval \<Rightarrow> state" where
  "bind sc st n v =
     (case sc of
        ModuleLevel \<Rightarrow> st\<lparr>globs := (n, v) # globs st\<rparr>
      | InFunction ls \<Rightarrow> st\<lparr>locs := (n, v) # locs st\<rparr>)"

datatype flow = Normal | Returned | Threw exn | Unsup

definition eval_in :: "candidate \<Rightarrow> scope \<Rightarrow> state \<Rightarrow> expr \<Rightarrow> state \<times> pyval outcome" where
  "eval_in cand sc st e =
     (case eval cand (lookup sc st) (recs st) e of (records, r) \<Rightarrow> (st\<lparr>recs := records\<rparr>, r))"

text \<open>
  Statements.  An \<^verbatim>\<open>assert\<close> that was not rewritten has Python's meaning: a falsy
  test raises \<^verbatim>\<open>AssertionError\<close> with the message, which is evaluated only then.
\<close>

fun exec :: "candidate \<Rightarrow> scope \<Rightarrow> state \<Rightarrow> stmt \<Rightarrow> state \<times> flow"
  and exec_block :: "candidate \<Rightarrow> scope \<Rightarrow> state \<Rightarrow> stmt list \<Rightarrow> state \<times> flow"
  where
  "exec cand sc st (Expr e) =
     (case eval_in cand sc st e of
        (st1, Val v) \<Rightarrow> (st1, Normal)
      | (st1, Raised x) \<Rightarrow> (st1, Threw x)
      | (st1, Unsupported) \<Rightarrow> (st1, Unsup))"
| "exec cand sc st (Assert test msg lineno) =
     (case eval_in cand sc st test of
        (st1, Val v) \<Rightarrow>
          if truthy v then (st1, Normal)
          else (case msg of
                  None \<Rightarrow> (st1, Threw (''AssertionError'', []))
                | Some m \<Rightarrow>
                    (case eval_in cand sc st1 m of
                       (st2, Val (Lit k)) \<Rightarrow> (st2, Threw (''AssertionError'', str_const k))
                     | (st2, Val w) \<Rightarrow> (st2, Unsup)
                     | (st2, Raised x) \<Rightarrow> (st2, Threw x)
                     | (st2, Unsupported) \<Rightarrow> (st2, Unsup)))
      | (st1, Raised x) \<Rightarrow> (st1, Threw x)
      | (st1, Unsupported) \<Rightarrow> (st1, Unsup))"
| "exec cand sc st (Return r) =
     (case r of
        None \<Rightarrow> (st, Returned)
      | Some e \<Rightarrow>
          (case eval_in cand sc st e of
             (st1, Val v) \<Rightarrow> (st1, Returned)
           | (st1, Raised x) \<Rightarrow> (st1, Threw x)
           | (st1, Unsupported) \<Rightarrow> (st1, Unsup)))"
| "exec cand sc st (IfStmt c body orelse) =
     (case eval_in cand sc st c of
        (st1, Val v) \<Rightarrow> if truthy v then exec_block cand sc st1 body
                         else exec_block cand sc st1 orelse
      | (st1, Raised x) \<Rightarrow> (st1, Threw x)
      | (st1, Unsupported) \<Rightarrow> (st1, Unsup))"
| "exec cand sc st (FunctionDef name args body) = (bind sc st name (Func name args body), Normal)"
| "exec_block cand sc st [] = (st, Normal)"
| "exec_block cand sc st (s # ss) =
     (case exec cand sc st s of
        (st1, Normal) \<Rightarrow> exec_block cand sc st1 ss
      | (st1, Returned) \<Rightarrow> (st1, Returned)
      | (st1, Threw x) \<Rightarrow> (st1, Threw x)
      | (st1, Unsup) \<Rightarrow> (st1, Unsup))"

text \<open>
  A \<^verbatim>\<open>return\<close> outside a function makes \<^verbatim>\<open>compile\<close> fail; such trees are
  outside the fragment.
\<close>

fun return_outside :: "stmt \<Rightarrow> bool" where
  "return_outside (Return r) = True"
| "return_outside (IfStmt c body orelse) =
     ((\<exists>s \<in> set body. return_outside s) \<or> (\<exists>s \<in> set orelse. return_outside s))"
| "return_outside s = False"

text \<open>
  The end of the executor:
  \<^verbatim>\<open>
  total = sum(1 for _, ok, _ in records if isinstance(ok, bool))
  passed = sum(1 for _, ok, _ in records if ok)
  failed = sum(1 for _, ok, _ in records if ok is False)
  failures_detail = [(ln, ok, msg) for (ln, ok, msg) in records if ok is False]
  return total, passed, failed, failures_detail
  \<close>
  The second component of every record is built by \<^verbatim>\<open>bool(...)\<close> or is the literal
  \<^verbatim>\<open>False\<close>, so it is a \<^verbatim>\<open>bool\<close> and the filter of \<open>total\<close> keeps every
  record.
\<close>

type_synonym result_t = "nat \<times> nat \<times> nat \<times> record_t list"

definition count_records :: "record_t list \<Rightarrow> result_t" where
  "count_records records =
     (length (filter (\<lambda>(lno, ok, msg). ok \<or> \<not> ok) records),
      length (filter (\<lambda>(lno, ok, msg). ok) records),
      length (filter (\<lambda>(lno, ok, msg). \<not> ok) records),
      filter (\<lambda>(lno, ok, msg). \<not> ok) records)"

text \<open>
  The input is what \<^verbatim>\<open>ast.parse(test_code)\<close> gives: an exception or a tree.
  \<^verbatim>\<open>
  records = []
  env = {"__rec": __rec}
  try:
      compiled = compile(_instrument_test_code(test_code), ...)
      with quiet_io(): exec(compiled, env, env)
  except Exception as e:
      return 0, 0, 1, [(0, False, f"Test import error: {type(e).__name__}: {e}")]
  if "check" not in env or not isinstance(env["check"], FunctionType):
      return 0, 0, 1, [(0, False, "Missing check(candidate) in test")]
  try:
      with quiet_io(): env["check"](candidate_func)
  except Exception as e:
      records.append((0, False, f"Runtime error: {type(e).__name__}: {e}"))
  (the counts above)
  \<close>
  The function has the same text in \<^verbatim>\<open>run_humaneval_openai.py\<close> (lines 76-107) and
  in \<^verbatim>\<open>humaneval_coverage_summary.py\<close> (lines 111-150).  \<open>call_check\<close> is the
  call \<^verbatim>\<open>env["check"](candidate_func)\<close> of a function with one parameter; other
  parameter lists are outside the fragment.
\<close>

datatype source = ParseFailed exn | Module "stmt list"

definition initial_state :: state where
  "initial_state = \<lparr>globs = [(''__rec'', Hook)], locs = [], recs = []\<rparr>"

definition error_text :: "string \<Rightarrow> exn \<Rightarrow> string" where
  "error_text prefix e = (case e of (kind, text) \<Rightarrow> prefix @ kind @ '': '' @ text)"

definition exec_module :: "candidate \<Rightarrow> stmt list \<Rightarrow> state \<times> flow" where
  "exec_module cand tree = exec_block cand ModuleLevel initial_state (instrument_test_code tree)"

definition call_check :: "candidate \<Rightarrow> state \<Rightarrow> string list \<Rightarrow> stmt list \<Rightarrow> state \<times> flow" where
  "call_check cand st args body =
     (case args of
        [p] \<Rightarrow> exec_block cand (InFunction (local_names args body)) (st\<lparr>locs := [(p, Candidate)]\<rparr>) body
      | _ \<Rightarrow> (st, Unsup))"

fun is_function :: "pyval \<Rightarrow> bool" where
  "is_function (Lit k) = False"
| "is_function v = True"

definition check_missing :: "state \<Rightarrow> bool" where
  "check_missing st =
     (case map_of (globs st) ''check'' of None \<Rightarrow> True | Some v \<Rightarrow> \<not> is_function v)"

definition after_check :: "state \<times> flow \<Rightarrow> result_t option" where
  "after_check r =
     (case r of
        (st, Unsup) \<Rightarrow> None
      | (st, Threw e) \<Rightarrow>
          Some (count_records (recs st @ [(0, False, Some (error_text ''Runtime error: '' e))]))
      | (st, Normal) \<Rightarrow> Some (count_records (recs st))
      | (st, Returned) \<Rightarrow> Some (count_records (recs st)))"

definition run_check_and_count_asserts :: "candidate \<Rightarrow> source \<Rightarrow> result_t option" where
  "run_check_and_count_asserts candidate_func test_code =
     (case test_code of
        ParseFailed e \<Rightarrow> Some (0, 0, 1, [(0, False, Some (error_text ''Test import error: '' e))])
      | Module tree \<Rightarrow>
          if \<exists>s \<in> set tree. return_outside s then None
          else
            (case exec_module candidate_func tree of
               (st, Unsup) \<Rightarrow> None
             | (st, Threw e) \<Rightarrow>
                 Some (0, 0, 1, [(0, False, Some (error_text ''Test import error: '' e))])
             | (st, fl) \<Rightarrow>
                 if check_missing st
                 then Some (0, 0, 1, [(0, False, Some ''Missing check(candidate) in test'')])
                 else
                   (case map_of (globs st) ''check'' of
                      Some (Func name args body) \<Rightarrow>
                        after_check (call_check candidate_func st args body)
                    | _ \<Rightarrow> None)))"

text \<open>
  Example candidates: one that returns its single argument, and one that always raises.
\<close>

definition first_arg :: candidate where
  "first_arg ks = (case ks of [k] \<Rightarrow> Inr k | _ \<Rightarrow> Inl (''TypeError'', ''one argument expected''))"

definition raising :: candidate where
  "raising ks = Inl (''ValueError'', ''bad'')"

text \<open>
  Example modules: only a helper; a check routine that calls the candidate and asserts
  nothing; and the check routine of the specification's example, five assert statements
  of which the second and the fourth are false for \<open>first_arg\<close>.
\<close>

definition helper_only :: "stmt list" where
  "helper_only = [FunctionDef ''helper'' [''x''] [Assert (Name ''x'') None 2]]"

definition calling_check :: "stmt list" where
  "calling_check = [FunctionDef ''check'' [''candidate''] [Expr (Call (Name ''candidate'') [])]]"

definition five_asserts :: "stmt list" where
  "five_asserts =
     [Assert (Call (Name ''candidate'') [Constant (CInt 1)]) None 2,
      Assert (Call (Name ''candidate'') [Constant (CInt 0)]) None 3,
      Assert (CompareEq (Call (Name ''candidate'') [Constant (CStr ''a'')]) (Constant (CStr ''a'')))
        (Some (Constant (CStr ''third''))) 4,
      Assert (Call (Name ''candidate'') [Constant CNone]) (Some (Constant (CStr ''fourth''))) 5,
      Assert (Call (Name ''candidate'') [Constant (CBool True)]) None 6]"

definition five_test :: "stmt list" where
  "five_test = [FunctionDef ''helper'' [''x''] [Assert (Name ''x'') None 9],
                FunctionDef ''check'' [''candidate''] five_asserts]"

text \<open>
  A check routine with two assert statements, the second false for \<open>first_arg\<close>, and
  the states of the namespace after the example modules have been executed.
\<close>

definition two_asserts :: "stmt list" where
  "two_asserts =
     [Assert (Call (Name ''candidate'') [Constant (CInt 1)]) None 2,
      Assert (Call (Name ''candidate'') [Constant (CInt 0)]) None 3]"

definition two_test :: "stmt list" where
  "two_test = [FunctionDef ''check'' [''candidate''] two_asserts]"

definition two_loaded :: state where
  "two_loaded =
     \<lparr>globs = [(''check'', Func ''check'' [''candidate''] (map AssertRecorder two_asserts)),
               (''__rec'', Hook)],
      locs = [], recs = []\<rparr>"

definition calling_loaded :: state where
  "calling_loaded =
     \<lparr>globs = [(''check'', Func ''check'' [''candidate''] [Expr (Call (Name ''candidate'') [])]),
               (''__rec'', Hook)],
      locs = [], recs = []\<rparr>"

definition helper_loaded :: state where
  "helper_loaded =
     \<lparr>globs = [(''helper'', Func ''helper'' [''x''] [Assert (Name ''x'') None 2]),
               (''__rec'', Hook)],
      locs = [], recs = []\<rparr>"

subsection \<open>Straight-line check routines\<close>

text \<open>
  Notions for the statement about the recorded outcomes.  A helper definition is a
  top-level \<^verbatim>\<open>def\<close> of a name other than \<^verbatim>\<open>check\<close> and \<^verbatim>\<open>__rec\<close>.
  \<open>check_look\<close> resolves names inside the check routine of a module whose only local
  name is the parameter \<^verbatim>\<open>candidate\<close>.  \<open>test_value\<close> is the value of an
  expression there (evaluation started with no record), \<open>test_truthy\<close> the truth value
  of the test of an assert statement, and \<open>assert_outcome\<close> the record that the hook
  makes of it: line number, truth value, and the text of the message unless the message
  is absent or \<^verbatim>\<open>None\<close>.  A statement \<open>runs_quietly\<close> when it is an assert or
  expression statement whose expressions do not mention \<^verbatim>\<open>__rec\<close> and evaluate
  without raising, the message of an assert statement to a constant.
\<close>

fun helper_def :: "stmt \<Rightarrow> bool" where
  "helper_def (FunctionDef name args body) = (name \<noteq> ''check'' \<and> name \<noteq> ''__rec'')"
| "helper_def s = False"

fun names_of :: "expr \<Rightarrow> string list" where
  "names_of (Constant k) = []"
| "names_of (Name n) = [n]"
| "names_of (Call f args) = names_of f @ concat (map names_of args)"
| "names_of (CompareEq a b) = names_of a @ names_of b"

definition check_look :: "candidate \<Rightarrow> stmt list \<Rightarrow> string \<Rightarrow> pyval option" where
  "check_look cand tree =
     lookup (InFunction [''candidate''])
       ((fst (exec_module cand tree))\<lparr>locs := [(''candidate'', Candidate)]\<rparr>)"

definition test_value :: "candidate \<Rightarrow> (string \<Rightarrow> pyval option) \<Rightarrow> expr \<Rightarrow> pyval" where
  "test_value cand look e = (case snd (eval cand look [] e) of Val v \<Rightarrow> v | _ \<Rightarrow> Lit CNone)"

definition test_truthy :: "candidate \<Rightarrow> (string \<Rightarrow> pyval option) \<Rightarrow> expr \<times> expr option \<times> int \<Rightarrow> bool" where
  "test_truthy cand look a = (case a of (tst, msg, lineno) \<Rightarrow> truthy (test_value cand look tst))"

definition msg_text :: "candidate \<Rightarrow> (string \<Rightarrow> pyval option) \<Rightarrow> expr option \<Rightarrow> string option" where
  "msg_text cand look msg =
     (case msg of
        None \<Rightarrow> None
      | Some e \<Rightarrow> (case test_value cand look e of
                    Lit CNone \<Rightarrow> None
                  | Lit k \<Rightarrow> Some (str_const k)
                  | _ \<Rightarrow> None))"

definition assert_outcome :: "candidate \<Rightarrow> (string \<Rightarrow> pyval option) \<Rightarrow> expr \<times> expr option \<times> int \<Rightarrow> record_t" where
  "assert_outcome cand look a =
     (case a of (tst, msg, lineno) \<Rightarrow>
        (lineno, truthy (test_value cand look tst), msg_text cand look msg))"

definition evaluates :: "candidate \<Rightarrow> (string \<Rightarrow> pyval option) \<Rightarrow> expr \<Rightarrow> bool" where
  "evaluates cand look e \<longleftrightarrow>
     ''__rec'' \<notin> set (names_of e) \<and> (\<exists>v. snd (eval cand look [] e) = Val v)"

definition evaluates_to_const :: "candidate \<Rightarrow> (string \<Rightarrow> pyval option) \<Rightarrow> expr \<Rightarrow> bool" where
  "evaluates_to_const cand look e \<longleftrightarrow>
     ''__rec'' \<notin> set (names_of e) \<and> (\<exists>k. snd (eval cand look [] e) = Val (Lit k))"

fun runs_quietly :: "candidate \<Rightarrow> (string \<Rightarrow> pyval option) \<Rightarrow> stmt \<Rightarrow> bool" where
  "runs_quietly cand look (Assert tst msg lineno) =
     (evaluates cand look tst
      \<and> (case msg of None \<Rightarrow> True | Some e \<Rightarrow> evaluates_to_const cand look e))"
| "runs_quietly cand look (Expr e) = evaluates cand look e"
| "runs_quietly cand look s = False"

text \<open>The bindings that the definitions of a block make, in source order.\<close>

fun def_bindings :: "stmt list \<Rightarrow> (string \<times> pyval) list" where
  "def_bindings [] = []"
| "def_bindings (FunctionDef name args body # ss) = (name, Func name args body) # def_bindings ss"
| "def_bindings (s # ss) = def_bindings ss"

text \<open>A function that resolves names gives the hook to the name \<^verbatim>\<open>__rec\<close> only.\<close>

definition look_ok :: "(string \<Rightarrow> pyval option) \<Rightarrow> bool" where
  "look_ok look \<longleftrightarrow> (\<forall>n. look n = Some Hook \<longrightarrow> n = ''__rec'')"

subsection \<open>The batch loop (\<^verbatim>\<open>main\<close> of the two runners)\<close>

text \<open>
  \<^verbatim>\<open>run_humaneval_openai.py\<close> (lines 130-164) and
  \<^verbatim>\<open>humaneval_coverage_summary.py\<close> (lines 339-426) run the same loop over the
  solution files, with the same three counters and the same printed line per file; the
  second also appends a row to its coverage table, which is left out here.
  \<^verbatim>\<open>
  for sol in files:
      try: problem_id = int(sol.name.split("_")[1])
      except Exception:
          print(... 'SKIP' (bad filename)); continue
      key = f"HumanEval/{problem_id}"
      if key not in problems:
          print(... 'SKIP' (not in dataset)); continue
      entry = problems[key]["entry_point"]; test_code = problems[key]["test"]
      try: mod = load_module(sol)
      except Exception as e:
          print(... 'ERROR' (load: {type(e).__name__})); grand_fail += 1; continue
      if not hasattr(mod, entry):
          print(... '0/0' 'FAIL' (missing `{entry}`)); grand_fail += 1; continue
      candidate = getattr(mod, entry)
      total, passed, failed, _ = run_check_and_count_asserts(candidate, test_code)
      status = "PASS" if failed == 0 and total > 0 else "FAIL"
      print(... f'{passed}/{total}' status)
      grand_total += 1
      grand_pass += int(status == "PASS")
      grand_fail += int(status == "FAIL")
  \<close>
  A solution file is given by its name, the problem number read from the name (\<open>None\<close>
  when the conversion raises) and the result of loading it: an exception, or the
  attributes of the module that are candidates.  The dataset maps a problem number to the
  entry point and the parsed test source.  A printed line is kept as its fields: problem
  number, file name, the column of asserts, the status and the remark in parentheses.
\<close>

record solution =
  sol_name :: string
  sol_id :: "int option"
  sol_module :: "exn + (string \<times> candidate) list"

record problem =
  entry_point :: string
  test :: source

datatype status = SKIP | ERROR | FAIL | PASS

type_synonym line_t = "int option \<times> string \<times> string \<times> status \<times> string"

record totals =
  grand_total :: nat
  grand_pass :: nat
  grand_fail :: nat
  printed :: "line_t list"

definition process_solution :: "(int \<times> problem) list \<Rightarrow> totals \<Rightarrow> solution \<Rightarrow> totals option" where
  "process_solution problems st sol =
     (case sol_id sol of
        None \<Rightarrow>
          Some (st\<lparr>printed := printed st @ [(None, sol_name sol, ''-'', SKIP, ''(bad filename)'')]\<rparr>)
      | Some problem_id \<Rightarrow>
          (case map_of problems problem_id of
             None \<Rightarrow>
               Some (st\<lparr>printed := printed st
                          @ [(Some problem_id, sol_name sol, ''-'', SKIP, ''(not in dataset)'')]\<rparr>)
           | Some p \<Rightarrow>
               (case sol_module sol of
                  Inl e \<Rightarrow>
                    Some (st\<lparr>grand_fail := grand_fail st + 1,
                             printed := printed st
                               @ [(Some problem_id, sol_name sol, ''-'', ERROR,
                                   ''(load: '' @ fst e @ '')'')]\<rparr>)
                | Inr attrs \<Rightarrow>
                    (case map_of attrs (entry_point p) of
                       None \<Rightarrow>
                         Some (st\<lparr>grand_fail := grand_fail st + 1,
                                  printed := printed st
                                    @ [(Some problem_id, sol_name sol, ''0/0'', FAIL,
                                        ''(missing `'' @ entry_point p @ ''`)'')]\<rparr>)
                     | Some candidate \<Rightarrow>
                         (case run_check_and_count_asserts candidate (test p) of
                            None \<Rightarrow> None
                          | Some (n_total, passed, failed, detail) \<Rightarrow>
                              let status = (if failed = 0 \<and> n_total > 0 then PASS else FAIL) in
                              Some (st\<lparr>grand_total := grand_total st + 1,
                                       grand_pass := grand_pass st + (if status = PASS then 1 else 0),
                                       grand_fail := grand_fail st + (if status = FAIL then 1 else 0),
                                       printed := printed st
                                         @ [(Some problem_id, sol_name sol,
                                             str_int (int passed) @ ''/'' @ str_int (int n_total),
                                             status, [])]\<rparr>))))))"

fun main_loop :: "(int \<times> problem) list \<Rightarrow> totals \<Rightarrow> solution list \<Rightarrow> totals option" where
  "main_loop problems st [] = Some st"
| "main_loop problems st (sol # files) =
     (case process_solution problems st sol of
        None \<Rightarrow> None
      | Some st1 \<Rightarrow> main_loop problems st1 files)"

definition start_totals :: totals where
  "start_totals = \<lparr>grand_total = 0, grand_pass = 0, grand_fail = 0, printed = []\<rparr>"

text \<open>
  An example: problem 7 with entry point \<^verbatim>\<open>solve\<close>, a solution file that loads and
  defines only \<^verbatim>\<open>other\<close>, and one whose number is not in the dataset.
\<close>

definition example_problems :: "(int \<times> problem) list" where
  "example_problems = [(7, \<lparr>entry_point = ''solve'', test = Module five_test\<rparr>)]"

definition no_entry_solution :: solution where
  "no_entry_solution =
     \<lparr>sol_name = ''humaneval_7_openai_attempt_001_base.py'', sol_id = Some 7,
      sol_module = Inr [(''other'', first_arg)]\<rparr>"

definition unknown_solution :: solution where
  "unknown_solution =
     \<lparr>sol_name = ''humaneval_999_openai_attempt_001_base.py'', sol_id = Some 999,
      sol_module = Inr [(''solve'', first_arg)]\<rparr>"

section \<open>Theorems\<close>

subsection \<open>Coverage readers\<close>

lemma summarize_stmts_nonpos:
  "get0 (num_statements (get_summary entry)) \<le> 0 \<Longrightarrow>
   line_percent_of (summarize_pytest_cov_style entry) = 0
   \<and> line_percent_of (summarize_pytest_cov_style_gs entry) = 0"
  by (simp add: summarize_pytest_cov_style_def summarize_pytest_cov_style_gs_def
      line_percent_of_def Let_def)

lemma from_counts_undefined:
  "float_attr flt attrib valid_name = None \<or> float_attr flt attrib valid_name = Some v \<and> v \<le> 0
   \<Longrightarrow> from_counts flt attrib valid_name covered_name = None"
  by (auto simp: from_counts_def split: option.splits)

text \<open>
  Claim C2, as the code has it.  For a \<^verbatim>\<open>coverage.json\<close> file entry whose
  \<open>num_statements\<close> is 0 (or absent, or negative), both versions of
  \<open>summarize_pytest_cov_style\<close> return the line percentage 0.0: a float, not an
  undefined value.  Only the XML reader keeps an undefined percentage: when the root has no
  numeric \<^verbatim>\<open>line-rate\<close> and \<^verbatim>\<open>lines-valid\<close> is not a positive number,
  \<open>parse_coverage_xml\<close> returns \<open>None\<close> for the line percentage.
\<close>

theorem zero_statements_line_percent:
  "(get0 (num_statements (get_summary entry)) \<le> 0 \<longrightarrow>
      line_percent_of (summarize_pytest_cov_style entry) = 0
      \<and> line_percent_of (summarize_pytest_cov_style_gs entry) = 0)
   \<and> (to_pct flt attrib ''line-rate'' = None
        \<and> (float_attr flt attrib ''lines-valid'' = None
             \<or> (\<exists>v. float_attr flt attrib ''lines-valid'' = Some v \<and> v \<le> 0)) \<longrightarrow>
      (\<exists>bp. parse_coverage_xml flt (Document attrib) = Inr (None, bp)))"
proof -
  have "\<exists>bp. parse_coverage_xml flt (Document attrib) = Inr (None, bp)"
    if "to_pct flt attrib ''line-rate'' = None"
      and "float_attr flt attrib ''lines-valid'' = None
           \<or> (\<exists>v. float_attr flt attrib ''lines-valid'' = Some v \<and> v \<le> 0)"
  proof -
    have "from_counts flt attrib ''lines-valid'' ''lines-covered'' = None"
      using that(2) from_counts_undefined[of flt attrib "''lines-valid''"] by blast
    then show ?thesis
      using that(1) by (simp add: parse_coverage_xml_def Let_def)
  qed
  then show ?thesis
    using summarize_stmts_nonpos[of entry] by blast
qed

theorem zero_statements_line_percent_witness:
  "get0 (num_statements (get_summary
      \<lparr>summary = Some \<lparr>num_statements = Some 0, covered_lines = Some 0, num_branches = Some 0,
                        covered_branches = Some 0\<rparr>,
       missing_lines = Some [], missing_branches = Given [], other_keys = True\<rparr>)) = 0
   \<and> line_percent_of (summarize_pytest_cov_style
      \<lparr>summary = Some \<lparr>num_statements = Some 0, covered_lines = Some 0, num_branches = Some 0,
                        covered_branches = Some 0\<rparr>,
       missing_lines = Some [], missing_branches = Given [], other_keys = True\<rparr>) = 0
   \<and> to_pct example_float [(''lines-valid'', ''0''), (''lines-covered'', ''0'')] ''line-rate'' = None
   \<and> float_attr example_float [(''lines-valid'', ''0''), (''lines-covered'', ''0'')] ''lines-valid''
       = Some 0
   \<and> parse_coverage_xml example_float (Document [(''lines-valid'', ''0''), (''lines-covered'', ''0'')])
       = Inr (None, None)"
proof -
  let ?e = "\<lparr>summary = Some \<lparr>num_statements = Some 0, covered_lines = Some 0,
                 num_branches = Some 0, covered_branches = Some 0\<rparr>,
               missing_lines = Some [], missing_branches = Given [], other_keys = True\<rparr>"
  let ?a = "[(''lines-valid'', ''0''), (''lines-covered'', ''0'')]"
  have h1: "get0 (num_statements (get_summary ?e)) = 0"
    by (simp add: get0_def get_summary_def)
  have h2: "to_pct example_float ?a ''line-rate'' = None"
    by (simp add: to_pct_def)
  have h3: "float_attr example_float ?a ''lines-valid'' = Some 0"
    by (simp add: float_attr_def example_float_def)
  have h4: "parse_coverage_xml example_float (Document ?a) = Inr (None, None)"
    by (simp add: parse_coverage_xml_def to_pct_def from_counts_def float_attr_def
        example_float_def Let_def)
  from zero_statements_line_percent[of ?e example_float ?a] h1
  have "line_percent_of (summarize_pytest_cov_style ?e) = 0" by simp
  with h1 h2 h3 h4 show ?thesis by (intro conjI)
qed

text \<open>
  The claim as the specification words it (an undefined percentage, never 0) fails on the
  JSON reader: an entry with zero statements gets the line percentage 0.
\<close>

theorem zero_statements_counterexample:
  "line_percent_of (summarize_pytest_cov_style
      \<lparr>summary = Some \<lparr>num_statements = Some 0, covered_lines = Some 0, num_branches = Some 0,
                        covered_branches = Some 0\<rparr>,
       missing_lines = Some [], missing_branches = Given [], other_keys = True\<rparr>) = 0
   \<and> line_percent_of (summarize_pytest_cov_style_gs
      \<lparr>summary = Some \<lparr>num_statements = Some 0, covered_lines = Some 0, num_branches = Some 0,
                        covered_branches = Some 0\<rparr>,
       missing_lines = Some [], missing_branches = Given [], other_keys = True\<rparr>) = 0"
  by (simp add: summarize_pytest_cov_style_def summarize_pytest_cov_style_gs_def
      line_percent_of_def entry_is_empty_def get_summary_def get0_def Let_def)

lemma to_pct_numeric:
  "map_of attrib name = Some s \<Longrightarrow> flt s = Some r \<Longrightarrow> to_pct flt attrib name = Some (r * 100)"
  by (simp add: to_pct_def)

text \<open>
  Claim C5.  When the root element carries \<^verbatim>\<open>line-rate\<close> and \<^verbatim>\<open>branch-rate\<close>
  attributes that \<^verbatim>\<open>float\<close> accepts, \<open>parse_coverage_xml\<close> returns exactly these
  two numbers times 100, and the result does not depend on any other attribute: every
  document with the same two rate attributes, whatever its
  \<^verbatim>\<open>lines-valid\<close>, \<^verbatim>\<open>lines-covered\<close>, \<^verbatim>\<open>branches-valid\<close> and
  \<^verbatim>\<open>branches-covered\<close>, gives the same pair.
\<close>

theorem direct_rates_win:
  assumes "map_of attrib ''line-rate'' = Some s1" and "flt s1 = Some r1"
    and "map_of attrib ''branch-rate'' = Some s2" and "flt s2 = Some r2"
  shows "parse_coverage_xml flt (Document attrib) = Inr (Some (r1 * 100), Some (r2 * 100))
     \<and> (\<forall>attrib'. map_of attrib' ''line-rate'' = Some s1 \<and> map_of attrib' ''branch-rate'' = Some s2
          \<longrightarrow> parse_coverage_xml flt (Document attrib') = parse_coverage_xml flt (Document attrib))"
proof -
  have main: "parse_coverage_xml flt (Document a) = Inr (Some (r1 * 100), Some (r2 * 100))"
    if "map_of a ''line-rate'' = Some s1" and "map_of a ''branch-rate'' = Some s2" for a
    using that assms(2,4) by (simp add: parse_coverage_xml_def to_pct_numeric Let_def)
  show ?thesis
    using main[OF assms(1,3)] main by simp
qed

theorem direct_rates_win_witness:
  "map_of [(''line-rate'', ''0.5''), (''branch-rate'', ''0.25''), (''lines-valid'', ''10''),
           (''lines-covered'', ''9''), (''branches-valid'', ''4''), (''branches-covered'', ''4'')]
      ''line-rate'' = Some ''0.5''
   \<and> example_float ''0.5'' = Some (1 / 2)
   \<and> example_float ''0.25'' = Some (1 / 4)
   \<and> from_counts example_float
        [(''line-rate'', ''0.5''), (''branch-rate'', ''0.25''), (''lines-valid'', ''10''),
         (''lines-covered'', ''9''), (''branches-valid'', ''4''), (''branches-covered'', ''4'')]
        ''lines-valid'' ''lines-covered'' = Some 90
   \<and> parse_coverage_xml example_float
        (Document [(''line-rate'', ''0.5''), (''branch-rate'', ''0.25''), (''lines-valid'', ''10''),
           (''lines-covered'', ''9''), (''branches-valid'', ''4''), (''branches-covered'', ''4'')])
       = Inr (Some 50, Some 25)"
proof -
  let ?a = "[(''line-rate'', ''0.5''), (''branch-rate'', ''0.25''), (''lines-valid'', ''10''),
             (''lines-covered'', ''9''), (''branches-valid'', ''4''), (''branches-covered'', ''4'')]"
  have a1: "map_of ?a ''line-rate'' = Some ''0.5''" by simp
  have a2: "example_float ''0.5'' = Some (1 / 2)" by (simp add: example_float_def)
  have a3: "map_of ?a ''branch-rate'' = Some ''0.25''" by simp
  have a4: "example_float ''0.25'' = Some (1 / 4)" by (simp add: example_float_def)
  have fc: "from_counts example_float ?a ''lines-valid'' ''lines-covered'' = Some 90"
    by (simp add: from_counts_def float_attr_def example_float_def)
  from direct_rates_win[OF a1 a2 a3 a4]
  have "parse_coverage_xml example_float (Document ?a) = Inr (Some 50, Some 25)" by simp
  with a1 a2 a4 fc show ?thesis by (intro conjI)
qed

lemma summarize_counts_agree:
  "counts_of (summarize_pytest_cov_style entry) = counts_of (summarize_pytest_cov_style_gs entry)"
  by (simp add: summarize_pytest_cov_style_def summarize_pytest_cov_style_gs_def counts_of_def
      Let_def split: json_field.splits)

lemma summarize_branch_agree:
  assumes "get0 (num_branches (get_summary entry)) \<le> 0
           \<or> get0 (covered_branches (get_summary entry))
              = get0 (num_branches (get_summary entry))
                - int (length (case missing_branches entry of
                                 Absent \<Rightarrow> [] | Null \<Rightarrow> [] | Given l \<Rightarrow> l))"
  shows "summarize_pytest_cov_style entry = summarize_pytest_cov_style_gs entry"
  using assms
  by (auto simp: summarize_pytest_cov_style_def summarize_pytest_cov_style_gs_def
      Let_def split: json_field.splits)

text \<open>
  Claim C10, as the code has it.  The two versions of \<open>summarize_pytest_cov_style\<close>
  always return the same statement count, miss count, branch count, partial-branch count,
  line percentage and missing lines.  Their branch percentages are computed from different
  data (the \<open>covered_branches\<close> of the summary in
  \<^verbatim>\<open>humaneval_coverage_summary.py\<close>, the branch count minus the number of
  \<open>missing_branches\<close> in \<^verbatim>\<open>generate_summary.py\<close>), so the whole tuples are equal
  when the entry has no branches or when
  \<open>covered_branches = num_branches - len(missing_branches)\<close>.
\<close>

theorem summarize_versions_agree:
  "counts_of (summarize_pytest_cov_style entry) = counts_of (summarize_pytest_cov_style_gs entry)
   \<and> (get0 (num_branches (get_summary entry)) \<le> 0
        \<or> get0 (covered_branches (get_summary entry))
           = get0 (num_branches (get_summary entry))
             - int (length (case missing_branches entry of
                              Absent \<Rightarrow> [] | Null \<Rightarrow> [] | Given l \<Rightarrow> l))
      \<longrightarrow> summarize_pytest_cov_style entry = summarize_pytest_cov_style_gs entry)"
  using summarize_counts_agree[of entry] summarize_branch_agree[of entry] by blast

theorem summarize_versions_agree_witness:
  "get0 (covered_branches (get_summary
      \<lparr>summary = Some \<lparr>num_statements = Some 10, covered_lines = Some 8, num_branches = Some 4,
                        covered_branches = Some 3\<rparr>,
       missing_lines = Some [7, 3], missing_branches = Given [(3, 5)], other_keys = True\<rparr>)) = 3
   \<and> summarize_pytest_cov_style
      \<lparr>summary = Some \<lparr>num_statements = Some 10, covered_lines = Some 8, num_branches = Some 4,
                        covered_branches = Some 3\<rparr>,
       missing_lines = Some [7, 3], missing_branches = Given [(3, 5)], other_keys = True\<rparr>
     = summarize_pytest_cov_style_gs
      \<lparr>summary = Some \<lparr>num_statements = Some 10, covered_lines = Some 8, num_branches = Some 4,
                        covered_branches = Some 3\<rparr>,
       missing_lines = Some [7, 3], missing_branches = Given [(3, 5)], other_keys = True\<rparr>
   \<and> summarize_pytest_cov_style_gs
      \<lparr>summary = Some \<lparr>num_statements = Some 10, covered_lines = Some 8, num_branches = Some 4,
                        covered_branches = Some 3\<rparr>,
       missing_lines = Some [7, 3], missing_branches = Given [(3, 5)], other_keys = True\<rparr>
     = (10, 2, 4, 1, 80, 75, [3, 7])"
proof -
  let ?e = "\<lparr>summary = Some \<lparr>num_statements = Some 10, covered_lines = Some 8,
                 num_branches = Some 4, covered_branches = Some 3\<rparr>,
               missing_lines = Some [7, 3], missing_branches = Given [(3, 5)],
               other_keys = True\<rparr>"
  have h: "get0 (covered_branches (get_summary ?e)) = 3"
    by (simp add: get0_def get_summary_def)
  have g: "get0 (num_branches (get_summary ?e)) = 4"
    by (simp add: get0_def get_summary_def)
  have v: "summarize_pytest_cov_style_gs ?e = (10, 2, 4, 1, 80, 75, [3, 7])"
    by (simp add: summarize_pytest_cov_style_gs_def entry_is_empty_def get_summary_def
        get0_def Let_def)
  from summarize_versions_agree[of ?e] h g
  have "summarize_pytest_cov_style ?e = summarize_pytest_cov_style_gs ?e" by simp
  with h v show ?thesis by (intro conjI)
qed

text \<open>
  The two versions disagree on an entry with two branches, one of them covered according
  to the summary, and an empty list of missing branches: 50 percent against 100 percent.
\<close>

theorem summarize_versions_counterexample:
  "summarize_pytest_cov_style
      \<lparr>summary = Some \<lparr>num_statements = Some 4, covered_lines = Some 4, num_branches = Some 2,
                        covered_branches = Some 1\<rparr>,
       missing_lines = Some [], missing_branches = Given [], other_keys = True\<rparr>
     = (4, 0, 2, 0, 100, 50, [])
   \<and> summarize_pytest_cov_style_gs
      \<lparr>summary = Some \<lparr>num_statements = Some 4, covered_lines = Some 4, num_branches = Some 2,
                        covered_branches = Some 1\<rparr>,
       missing_lines = Some [], missing_branches = Given [], other_keys = True\<rparr>
     = (4, 0, 2, 0, 100, 100, [])
   \<and> summarize_pytest_cov_style
      \<lparr>summary = Some \<lparr>num_statements = Some 4, covered_lines = Some 4, num_branches = Some 2,
                        covered_branches = Some 1\<rparr>,
       missing_lines = Some [], missing_branches = Given [], other_keys = True\<rparr>
     \<noteq> summarize_pytest_cov_style_gs
      \<lparr>summary = Some \<lparr>num_statements = Some 4, covered_lines = Some 4, num_branches = Some 2,
                        covered_branches = Some 1\<rparr>,
       missing_lines = Some [], missing_branches = Given [], other_keys = True\<rparr>"
  by (simp add: summarize_pytest_cov_style_def summarize_pytest_cov_style_gs_def
      entry_is_empty_def get_summary_def get0_def Let_def)

subsection \<open>Missing-line compression\<close>

lemma runs_Nil_iff: "runs xs = [] \<longleftrightarrow> xs = []"
  by (cases xs) (auto split: list.splits)

lemma fst_hd_runs: "xs \<noteq> [] \<Longrightarrow> fst (hd (runs xs)) = hd xs"
  by (cases xs) (auto split: list.splits)

lemma runs_single_then:
  "ys = [] \<or> hd ys \<noteq> s + 1 \<Longrightarrow> runs (s # ys) = (s, s) # runs ys"
  using fst_hd_runs[of ys] runs_Nil_iff[of ys]
  by (cases "runs ys") (auto)

lemma runs_step_then:
  "ys \<noteq> [] \<Longrightarrow> hd ys = s + 1 \<Longrightarrow> runs (s # ys) = (s, snd (hd (runs ys))) # tl (runs ys)"
  using fst_hd_runs[of ys] runs_Nil_iff[of ys]
  by (cases "runs ys") (auto)

declare runs.simps(2) [simp del]

lemma runs_upto_append:
  "s \<le> p \<Longrightarrow> ys = [] \<or> hd ys \<noteq> p + 1 \<Longrightarrow> runs ([s..p] @ ys) = (s, p) # runs ys"
proof (induction "nat (p - s)" arbitrary: s)
  case 0
  then have "s = p" by simp
  with 0 show ?case by (simp add: runs_single_then)
next
  case (Suc n)
  then have lt: "s < p" by linarith
  have "runs ([s + 1..p] @ ys) = (s + 1, p) # runs ys"
    using Suc lt by (intro Suc.hyps(1)) auto
  moreover have "[s..p] = s # [s + 1..p]" using lt by (simp add: upto_rec1)
  moreover have "hd ([s + 1..p] @ ys) = s + 1" "[s + 1..p] @ ys \<noteq> []"
    using lt by (simp_all add: upto_rec1)
  ultimately show ?case using runs_step_then[of "[s + 1..p] @ ys" s] by simp
qed

lemma compress_loop_runs:
  "start \<le> prev \<Longrightarrow> compress_loop start prev ranges rest = (s', p', r') \<Longrightarrow>
   r' @ [fmt_range s' p'] = ranges @ map render_run (runs ([start..prev] @ rest))"
proof (induction rest arbitrary: start prev ranges)
  case Nil
  then show ?case
    using runs_upto_append[of start prev "[]"] by (simp add: render_run_def fmt_range_def)
next
  case (Cons lno rest)
  show ?case
  proof (cases "lno = prev + 1")
    case True
    have "[start..lno] = [start..prev] @ [lno]"
      using True Cons.prems(1) by (simp add: upto_rec2)
    then have "[start..prev] @ lno # rest = [start..lno] @ rest"
      by simp
    moreover have "r' @ [fmt_range s' p'] = ranges @ map render_run (runs ([start..lno] @ rest))"
      using Cons.prems True by (intro Cons.IH) auto
    ultimately show ?thesis by (simp only:)
  next
    case False
    have "r' @ [fmt_range s' p'] =
          (ranges @ [fmt_range start prev]) @ map render_run (runs ([lno..lno] @ rest))"
      using Cons.prems False by (intro Cons.IH) auto
    moreover have "runs ([start..prev] @ lno # rest) = (start, prev) # runs (lno # rest)"
      using runs_upto_append[of start prev "lno # rest"] Cons.prems(1) False by simp
    ultimately show ?thesis by (simp add: render_run_def fmt_range_def)
  qed
qed

lemma compress_is_runs: "compress_line_ranges xs = join '', '' (map render_run (runs xs))"
proof (cases xs)
  case Nil
  then show ?thesis by (simp add: compress_line_ranges_def)
next
  case (Cons l0 rest)
  obtain s' p' r' where L: "compress_loop l0 l0 [] rest = (s', p', r')"
    by (cases "compress_loop l0 l0 [] rest") auto
  from compress_loop_runs[OF _ L] have "r' @ [fmt_range s' p'] = map render_run (runs (l0 # rest))"
    by simp
  with Cons L show ?thesis by (simp add: compress_line_ranges_def)
qed

lemma runs_le: "(a, b) \<in> set (runs xs) \<Longrightarrow> a \<le> b"
proof (induction xs arbitrary: a b)
  case Nil
  then show ?case by simp
next
  case (Cons x xs)
  show ?case
  proof (cases "xs = [] \<or> hd xs \<noteq> x + 1")
    case True
    then show ?thesis using Cons by (auto simp: runs_single_then)
  next
    case False
    then have ne: "xs \<noteq> []" and hd: "hd xs = x + 1" by auto
    obtain c d rs where R: "runs xs = (c, d) # rs"
      using ne runs_Nil_iff[of xs] by (cases "runs xs") auto
    have c: "c = x + 1" using fst_hd_runs[OF ne] R hd by simp
    have "c \<le> d" using Cons.IH[of c d] R by simp
    then have "x \<le> d" using c by simp
    then show ?thesis using Cons R c runs_step_then[OF ne hd] by auto
  qed
qed

lemma runs_cover: "concat (map (\<lambda>(a, b). [a..b]) (runs xs)) = xs"
proof (induction xs)
  case Nil
  then show ?case by simp
next
  case (Cons x xs)
  show ?case
  proof (cases "xs = [] \<or> hd xs \<noteq> x + 1")
    case True
    then show ?thesis using Cons by (simp add: runs_single_then)
  next
    case False
    then have ne: "xs \<noteq> []" and hd: "hd xs = x + 1" by auto
    obtain a b rs where R: "runs xs = (a, b) # rs"
      using ne runs_Nil_iff[of xs] by (cases "runs xs") auto
    have a: "a = x + 1" using fst_hd_runs[OF ne] R hd by simp
    have "x + 1 \<le> b" using runs_le[of a b xs] R a by auto
    then have "[x..b] = x # [x + 1..b]" by (simp add: upto_rec1)
    then show ?thesis using Cons R a runs_step_then[OF ne hd] by simp
  qed
qed

lemma runs_maximal: "maximal_runs (runs xs)"
proof (induction xs)
  case Nil
  then show ?case by simp
next
  case (Cons x xs)
  show ?case
  proof (cases "xs = [] \<or> hd xs \<noteq> x + 1")
    case True
    then show ?thesis
      using Cons fst_hd_runs[of xs] runs_Nil_iff[of xs]
      by (cases "runs xs") (auto simp: runs_single_then)
  next
    case False
    then have ne: "xs \<noteq> []" and hd: "hd xs = x + 1" by auto
    obtain a b rs where R: "runs xs = (a, b) # rs"
      using ne runs_Nil_iff[of xs] by (cases "runs xs") auto
    show ?thesis using Cons R runs_step_then[OF ne hd] by (cases rs) auto
  qed
qed

lemma runs_separated: "sorted xs \<Longrightarrow> distinct xs \<Longrightarrow> separated_runs (runs xs)"
proof (induction xs)
  case Nil
  then show ?case by simp
next
  case (Cons x xs)
  show ?case
  proof (cases "xs = [] \<or> hd xs \<noteq> x + 1")
    case True
    have "xs \<noteq> [] \<Longrightarrow> x < hd xs" using Cons.prems by (cases xs) auto
    then show ?thesis
      using Cons True fst_hd_runs[of xs] runs_Nil_iff[of xs]
      by (cases "runs xs") (auto simp: runs_single_then)
  next
    case False
    then have ne: "xs \<noteq> []" and hd: "hd xs = x + 1" by auto
    obtain a b rs where R: "runs xs = (a, b) # rs"
      using ne runs_Nil_iff[of xs] by (cases "runs xs") auto
    show ?thesis using Cons R runs_step_then[OF ne hd] by (cases rs) auto
  qed
qed

text \<open>
  Claim C9.  For every list of line numbers (sorted or not), \<open>compress_line_ranges\<close>
  returns the runs of consecutive numbers of the list, each rendered as \<open>a-b\<close>, or as
  \<open>a\<close> when it is a single number, joined by a comma and a space.  The runs are
  the list cut into pieces \<open>a, a+1, ..., b\<close> (their concatenation is the list), every
  piece is maximal (the next piece does not start at \<open>b+1\<close>), and in a sorted list
  without repetitions two neighbouring pieces are separated by a gap.  In particular
  \<open>[2,3,4,7,8,10]\<close> gives \<open>2-4, 7-8, 10\<close>, the empty list gives the empty string and
  \<open>[5]\<close> gives \<open>5\<close>.
\<close>

theorem compress_line_ranges_renders_maximal_runs:
  "compress_line_ranges xs = join '', '' (map render_run (runs xs))
   \<and> concat (map (\<lambda>(a, b). [a..b]) (runs xs)) = xs
   \<and> (\<forall>(a, b) \<in> set (runs xs). a \<le> b)
   \<and> maximal_runs (runs xs)
   \<and> (sorted xs \<and> distinct xs \<longrightarrow> separated_runs (runs xs))
   \<and> compress_line_ranges [2, 3, 4, 7, 8, 10] = ''2-4, 7-8, 10''
   \<and> compress_line_ranges [] = ''''
   \<and> compress_line_ranges [5] = ''5''"
proof -
  have ex1: "compress_line_ranges [2, 3, 4, 7, 8, 10] = ''2-4, 7-8, 10''"
    by (simp add: compress_line_ranges_def fmt_range_def str_int_def str_nat.simps digit_char_def)
  have ex2: "compress_line_ranges [] = ''''"
    by (simp add: compress_line_ranges_def)
  have ex3: "compress_line_ranges [5] = ''5''"
    by (simp add: compress_line_ranges_def fmt_range_def str_int_def str_nat.simps digit_char_def)
  have le: "\<forall>(a, b) \<in> set (runs xs). a \<le> b"
    using runs_le by auto
  have sep: "sorted xs \<and> distinct xs \<longrightarrow> separated_runs (runs xs)"
    using runs_separated[of xs] by blast
  from compress_is_runs[of xs] runs_cover[of xs] le runs_maximal[of xs] sep ex1 ex2 ex3
  show ?thesis by (intro conjI)
qed

theorem compress_line_ranges_renders_maximal_runs_witness:
  "sorted [2, 3, 4, 7, 8, 10 :: int] \<and> distinct [2, 3, 4, 7, 8, 10 :: int]
   \<and> runs [2, 3, 4, 7, 8, 10] = [(2, 4), (7, 8), (10, 10)]
   \<and> separated_runs (runs [2, 3, 4, 7, 8, 10])
   \<and> maximal_runs (runs [2, 3, 4, 7, 8, 10])
   \<and> compress_line_ranges [2, 3, 4, 7, 8, 10]
       = join '', '' (map render_run (runs [2, 3, 4, 7, 8, 10]))"
  using compress_line_ranges_renders_maximal_runs [of "[2, 3, 4, 7, 8, 10]"]
  by (simp add: runs.simps)

subsection \<open>Prior tests within a character budget\<close>

lemma whole_files_kept_Nil [simp]: "whole_files_kept b [] = 0"
  by (simp add: whole_files_kept_def)

lemma upt_shift: "[1..<Suc (Suc n)] = 1 # map Suc [1..<Suc n]"
proof -
  have "[1..<Suc (Suc n)] = 1 # [Suc 1..<Suc (Suc n)]"
    by (rule upt_conv_Cons) simp
  also have "[Suc 1..<Suc (Suc n)] = map Suc [1..<Suc n]"
    by (rule map_Suc_upt [symmetric])
  finally show ?thesis .
qed

lemma chars_of_first_Suc:
  "chars_of_first (Suc k) (t # ts) = int (length t) + chars_of_first k ts"
  by (simp add: chars_of_first_def)

lemma takeWhile_chars_shift:
  "takeWhile (\<lambda>k. chars_of_first k (t # ts) \<le> b) (map Suc xs)
   = map Suc (takeWhile (\<lambda>k. chars_of_first k ts \<le> b - int (length t)) xs)"
proof (induction xs)
  case Nil
  show ?case by simp
next
  case (Cons x xs)
  have "chars_of_first (Suc x) (t # ts) \<le> b \<longleftrightarrow> chars_of_first x ts \<le> b - int (length t)"
    unfolding chars_of_first_Suc by linarith
  with Cons show ?case by simp
qed


lemma whole_files_kept_Cons:
  "whole_files_kept b (t # ts) =
     (if int (length t) \<le> b then Suc (whole_files_kept (b - int (length t)) ts) else 0)"
proof -
  have c1: "chars_of_first 1 (t # ts) = int (length t)"
    by (simp add: chars_of_first_def)
  have "whole_files_kept b (t # ts)
        = length (takeWhile (\<lambda>k. chars_of_first k (t # ts) \<le> b) (1 # map Suc [1..<Suc (length ts)]))"
    unfolding whole_files_kept_def using upt_shift[of "length ts"] by simp
  also have "\<dots> = (if int (length t) \<le> b
                   then Suc (length (takeWhile (\<lambda>k. chars_of_first k ts \<le> b - int (length t))
                                       [1..<Suc (length ts)]))
                   else 0)"
    by (simp only: takeWhile.simps c1 takeWhile_chars_shift list.size length_map split: if_split) simp
  finally show ?thesis unfolding whole_files_kept_def .
qed


lemma budgeted_texts_Nil [simp]: "budgeted_texts b th [] = []"
  by (simp add: budgeted_texts_def)

lemma budgeted_texts_Cons:
  "budgeted_texts b th (t # ts) =
     (if int (length t) \<le> b then t # budgeted_texts (b - int (length t)) th ts
      else if b > th then [take (nat b) t @ truncation_marker] else [])"
proof (cases "int (length t) \<le> b")
  case True
  have c: "chars_of_first (Suc k) (t # ts) = int (length t) + chars_of_first k ts" for k
    by (rule chars_of_first_Suc)
  have d: "b - (int (length t) + x) = b - int (length t) - x" for x by simp
  show ?thesis
    using True unfolding budgeted_texts_def whole_files_kept_Cons Let_def
    by (simp add: c d)
next
  case False
  then show ?thesis
    unfolding budgeted_texts_def whole_files_kept_Cons Let_def
    by (simp add: chars_of_first_def)
qed

lemma collect_loop_budgeted:
  "collect_loop idx texts total_len files =
     texts @ budgeted_texts (PRIOR_TESTS_CHAR_BUDGET - total_len) 200
               (map with_header (prior_files idx files))"
proof (induction files arbitrary: texts total_len)
  case Nil
  then show ?case by (simp add: prior_files_def)
next
  case (Cons f fs)
  show ?case
  proof (cases "is_current_file idx (fst f)")
    case True
    then show ?thesis using Cons.IH[of texts total_len] by (simp add: prior_files_def)
  next
    case False
    have pf: "prior_files idx (f # fs) = f # prior_files idx fs"
      using False by (simp add: prior_files_def)
    show ?thesis
    proof (cases "total_len + int (length (with_header f)) > PRIOR_TESTS_CHAR_BUDGET")
      case True
      then have "\<not> int (length (with_header f)) \<le> PRIOR_TESTS_CHAR_BUDGET - total_len" by simp
      then show ?thesis using False True
        by (simp add: pf budgeted_texts_Cons Let_def)
    next
      case over: False
      then have le: "int (length (with_header f)) \<le> PRIOR_TESTS_CHAR_BUDGET - total_len" by simp
      have eq: "PRIOR_TESTS_CHAR_BUDGET - (total_len + int (length (with_header f)))
            = PRIOR_TESTS_CHAR_BUDGET - total_len - int (length (with_header f))" by simp
      have "collect_loop idx texts total_len (f # fs)
            = collect_loop idx (texts @ [with_header f]) (total_len + int (length (with_header f))) fs"
        using False over by (simp add: Let_def)
      also have "\<dots> = (texts @ [with_header f]) @
            budgeted_texts (PRIOR_TESTS_CHAR_BUDGET - total_len - int (length (with_header f))) 200
               (map with_header (prior_files idx fs))"
        unfolding Cons.IH eq ..
      finally show ?thesis using le by (simp add: pf budgeted_texts_Cons)
    qed
  qed
qed


lemma whole_files_kept_le: "whole_files_kept b ts \<le> length ts"
  by (induction ts arbitrary: b) (simp_all add: whole_files_kept_Cons)

lemma chars_of_first_0 [simp]: "chars_of_first 0 ts = 0"
  by (simp add: chars_of_first_def)

lemma whole_files_kept_within:
  "0 \<le> b \<Longrightarrow> chars_of_first (whole_files_kept b ts) ts \<le> b"
proof (induction ts arbitrary: b)
  case Nil
  then show ?case by simp
next
  case (Cons t ts)
  show ?case
  proof (cases "int (length t) \<le> b")
    case True
    then have "chars_of_first (whole_files_kept (b - int (length t)) ts) ts \<le> b - int (length t)"
      by (intro Cons.IH) simp
    then show ?thesis using True by (simp add: whole_files_kept_Cons chars_of_first_Suc)
  next
    case False
    then show ?thesis using Cons.prems by (simp add: whole_files_kept_Cons)
  qed
qed

lemma whole_files_kept_maximal:
  "whole_files_kept b ts < length ts \<Longrightarrow> b < chars_of_first (Suc (whole_files_kept b ts)) ts"
proof (induction ts arbitrary: b)
  case Nil
  then show ?case by simp
next
  case (Cons t ts)
  show ?case
  proof (cases "int (length t) \<le> b")
    case True
    then have "whole_files_kept (b - int (length t)) ts < length ts"
      using Cons.prems by (simp add: whole_files_kept_Cons)
    then have "b - int (length t) < chars_of_first (Suc (whole_files_kept (b - int (length t)) ts)) ts"
      by (rule Cons.IH)
    then show ?thesis using True
      by (simp add: whole_files_kept_Cons chars_of_first_Suc[of _ t ts])
  next
    case False
    then show ?thesis by (simp add: whole_files_kept_Cons chars_of_first_def)
  qed
qed

lemma whole_files_kept_all:
  "chars_of_first (length ts) ts \<le> b \<Longrightarrow> whole_files_kept b ts = length ts"
proof (induction ts arbitrary: b)
  case Nil
  then show ?case by simp
next
  case (Cons t ts)
  have c: "chars_of_first (length (t # ts)) (t # ts) = int (length t) + chars_of_first (length ts) ts"
    by (simp add: chars_of_first_Suc)
  have nn: "0 \<le> chars_of_first (length ts) ts" by (simp add: chars_of_first_def)
  have le: "int (length t) \<le> b" using Cons.prems c nn by linarith
  have "whole_files_kept (b - int (length t)) ts = length ts"
    using Cons.prems c by (intro Cons.IH) linarith
  then show ?case using le by (simp add: whole_files_kept_Cons)
qed

lemma budgeted_texts_empty_iff: "budgeted_texts PRIOR_TESTS_CHAR_BUDGET 200 ts = [] \<longleftrightarrow> ts = []"
  by (cases ts) (simp_all add: budgeted_texts_Cons PRIOR_TESTS_CHAR_BUDGET_def)

lemma collect_prior_tests_text_budgeted:
  "collect_prior_tests_text idx files =
     (let ts = map with_header (prior_files idx files) in
      if ts = [] then ''None''
      else join [newline, newline] (budgeted_texts PRIOR_TESTS_CHAR_BUDGET 200 ts))"
  using budgeted_texts_empty_iff[of "map with_header (prior_files idx files)"]
  by (simp add: collect_prior_tests_text_def collect_loop_budgeted Let_def)

lemma collect_prior_closed_form:
  fixes idx :: int and files :: "(string \<times> string) list"
  defines "ts \<equiv> map with_header (prior_files idx files)"
  defines "k \<equiv> whole_files_kept PRIOR_TESTS_CHAR_BUDGET ts"
  defines "remaining \<equiv> PRIOR_TESTS_CHAR_BUDGET - chars_of_first k ts"
  shows "k \<le> length ts
     \<and> chars_of_first k ts \<le> PRIOR_TESTS_CHAR_BUDGET
     \<and> (k < length ts \<longrightarrow> PRIOR_TESTS_CHAR_BUDGET < chars_of_first (Suc k) ts)
     \<and> collect_prior_tests_text idx files =
         (if ts = [] then ''None''
          else if k = length ts then join [newline, newline] ts
          else if remaining > 200
               then join [newline, newline]
                      (take k ts @ [take (nat remaining) (ts ! k) @ truncation_marker])
               else join [newline, newline] (take k ts))
     \<and> (ts \<noteq> [] \<and> chars_of_first (length ts) ts \<le> PRIOR_TESTS_CHAR_BUDGET \<longrightarrow>
          collect_prior_tests_text idx files = join [newline, newline] ts)"
proof -
  have a: "k \<le> length ts" unfolding k_def by (rule whole_files_kept_le)
  have b: "chars_of_first k ts \<le> PRIOR_TESTS_CHAR_BUDGET"
    unfolding k_def by (rule whole_files_kept_within) (simp add: PRIOR_TESTS_CHAR_BUDGET_def)
  have c: "k < length ts \<longrightarrow> PRIOR_TESTS_CHAR_BUDGET < chars_of_first (Suc k) ts"
    unfolding k_def using whole_files_kept_maximal by blast
  have d: "collect_prior_tests_text idx files =
         (if ts = [] then ''None''
          else if k = length ts then join [newline, newline] ts
          else if remaining > 200
               then join [newline, newline]
                      (take k ts @ [take (nat remaining) (ts ! k) @ truncation_marker])
               else join [newline, newline] (take k ts))"
    unfolding collect_prior_tests_text_budgeted budgeted_texts_def Let_def
      ts_def [symmetric] k_def [symmetric] remaining_def [symmetric]
    by simp
  have e: "ts \<noteq> [] \<and> chars_of_first (length ts) ts \<le> PRIOR_TESTS_CHAR_BUDGET \<longrightarrow>
          collect_prior_tests_text idx files = join [newline, newline] ts"
    using d whole_files_kept_all[of ts PRIOR_TESTS_CHAR_BUDGET] unfolding k_def by simp
  from a b c d e show ?thesis by (intro conjI)
qed

text \<open>
  Claim C6, as the code has it.  For every round \<open>idx\<close> and directory listing, the
  files taken are all files of the listing other than the current round's own (those whose
  name does not end in the round's two-digit number and \<^verbatim>\<open>.py\<close>): files of later
  rounds that an earlier run left behind are taken too.  Let \<open>ts\<close> be their texts, each
  after its header line \<^verbatim>\<open># name\<close>, let \<open>k\<close> be the number of leading texts
  that fit whole in the budget of 6000 characters (the first \<open>k\<close> fit, the first
  \<open>k + 1\<close> do not), and \<open>remaining\<close> the budget they leave.  Then
  \<open>collect_prior_tests_text\<close> returns \<^verbatim>\<open>None\<close> when there is no such file; all
  the texts, joined by an empty line, when all fit; otherwise the first \<open>k\<close> texts
  whole, followed by the first \<open>remaining\<close> characters of the next one and the marker
  line \<^verbatim>\<open># ... (truncated)\<close> when \<open>remaining\<close> exceeds 200, and by nothing when
  it does not; no later file is included in either case.  When the files taken are
  exactly the files of the earlier rounds, this is the text that the claim describes.
\<close>

theorem collect_prior_tests_text_other_files:
  fixes idx :: int and files :: "(string \<times> string) list"
  defines "ts \<equiv> map (\<lambda>(name, content). ''# '' @ name @ [CHR 0x0A] @ content)
                    (filter (\<lambda>f. \<not> endswith (fst f) (fmt02d idx @ ''.py'')) files)"
  defines "k \<equiv> whole_files_kept 6000 ts"
  defines "remaining \<equiv> 6000 - chars_of_first k ts"
  shows "k \<le> length ts
     \<and> chars_of_first k ts \<le> 6000
     \<and> (k < length ts \<longrightarrow> 6000 < chars_of_first (Suc k) ts)
     \<and> collect_prior_tests_text idx files =
         (if ts = [] then ''None''
          else if k = length ts then join [CHR 0x0A, CHR 0x0A] ts
          else if remaining > 200
               then join [CHR 0x0A, CHR 0x0A]
                      (take k ts @ [take (nat remaining) (ts ! k)
                                    @ [CHR 0x0A] @ ''# ... (truncated)'' @ [CHR 0x0A]])
               else join [CHR 0x0A, CHR 0x0A] (take k ts))
     \<and> (ts \<noteq> [] \<and> chars_of_first (length ts) ts \<le> 6000 \<longrightarrow>
          collect_prior_tests_text idx files = join [CHR 0x0A, CHR 0x0A] ts)
     \<and> (filter (\<lambda>f. \<not> endswith (fst f) (fmt02d idx @ ''.py'')) files = earlier_rounds idx files
          \<longrightarrow> collect_prior_tests_text idx files = claimed_prior_tests_text idx files)"
proof -
  have wh: "with_header = (\<lambda>(name, content). ''# '' @ name @ [CHR 0x0A] @ content)"
    by (simp add: fun_eq_iff with_header_def newline_def)
  have pf: "prior_files idx files = filter (\<lambda>f. \<not> endswith (fst f) (fmt02d idx @ ''.py'')) files"
    by (simp add: prior_files_def is_current_file_def)
  have ts: "ts = map with_header (prior_files idx files)"
    unfolding ts_def wh pf ..
  have tm: "truncation_marker = [CHR 0x0A] @ ''# ... (truncated)'' @ [CHR 0x0A]"
    by (simp add: truncation_marker_def newline_def)
  have main: "k \<le> length ts
     \<and> chars_of_first k ts \<le> 6000
     \<and> (k < length ts \<longrightarrow> 6000 < chars_of_first (Suc k) ts)
     \<and> collect_prior_tests_text idx files =
         (if ts = [] then ''None''
          else if k = length ts then join [CHR 0x0A, CHR 0x0A] ts
          else if remaining > 200
               then join [CHR 0x0A, CHR 0x0A]
                      (take k ts @ [take (nat remaining) (ts ! k)
                                    @ [CHR 0x0A] @ ''# ... (truncated)'' @ [CHR 0x0A]])
               else join [CHR 0x0A, CHR 0x0A] (take k ts))
     \<and> (ts \<noteq> [] \<and> chars_of_first (length ts) ts \<le> 6000 \<longrightarrow>
          collect_prior_tests_text idx files = join [CHR 0x0A, CHR 0x0A] ts)"
    unfolding k_def remaining_def
    by (rule collect_prior_closed_form[of idx files,
          unfolded ts [symmetric] PRIOR_TESTS_CHAR_BUDGET_def truncation_marker_def newline_def])
  have agree: "filter (\<lambda>f. \<not> endswith (fst f) (fmt02d idx @ ''.py'')) files = earlier_rounds idx files
          \<longrightarrow> collect_prior_tests_text idx files = claimed_prior_tests_text idx files"
    unfolding pf [symmetric]
    by (simp add: collect_prior_tests_text_budgeted claimed_prior_tests_text_def)
  from main agree show ?thesis by blast
qed

theorem collect_prior_tests_text_other_files_witness:
  "prior_files 2
      [(''test_humaneval_106_llm_iter_01.py'', ''assert f(1) == [1]''),
       (''test_humaneval_106_llm_iter_02.py'', ''assert f(2) == [1, 2]'')]
     = [(''test_humaneval_106_llm_iter_01.py'', ''assert f(1) == [1]'')]
   \<and> collect_prior_tests_text 2
      [(''test_humaneval_106_llm_iter_01.py'', ''assert f(1) == [1]''),
       (''test_humaneval_106_llm_iter_02.py'', ''assert f(2) == [1, 2]'')]
     = ''# test_humaneval_106_llm_iter_01.py'' @ [CHR 0x0A] @ ''assert f(1) == [1]''
   \<and> collect_prior_tests_text 1 [] = ''None''
   \<and> collect_prior_tests_text 2 [(''a_01.py'', replicate 1500 (CHR ''x''))]
     = ''# a_01.py'' @ [CHR 0x0A] @ replicate 1500 (CHR ''x'')
   \<and> collect_prior_tests_text 2 [(''a_01.py'', replicate 7000 (CHR ''x''))]
     = ''# a_01.py'' @ [CHR 0x0A] @ replicate 5990 (CHR ''x'')
       @ [CHR 0x0A] @ ''# ... (truncated)'' @ [CHR 0x0A]
   \<and> collect_prior_tests_text 3
      [(''a_01.py'', replicate 5900 (CHR ''x'')), (''a_02.py'', replicate 500 (CHR ''y''))]
     = ''# a_01.py'' @ [CHR 0x0A] @ replicate 5900 (CHR ''x'')"
proof -
  let ?files = "[(''test_humaneval_106_llm_iter_01.py'', ''assert f(1) == [1]''),
                 (''test_humaneval_106_llm_iter_02.py'', ''assert f(2) == [1, 2]'')]"
  have p: "prior_files 2 ?files = [(''test_humaneval_106_llm_iter_01.py'', ''assert f(1) == [1]'')]"
    by (simp add: prior_files_def is_current_file_def endswith_def fmt02d_def
        str_int_def str_nat.simps digit_char_def)
  have f: "filter (\<lambda>f. \<not> endswith (fst f) (fmt02d 2 @ ''.py'')) ?files
           = [(''test_humaneval_106_llm_iter_01.py'', ''assert f(1) == [1]'')]"
    by (simp add: endswith_def fmt02d_def str_int_def str_nat.simps digit_char_def)
  let ?ts = "map (\<lambda>(name, content). ''# '' @ name @ [CHR 0x0A] @ content)
               [(''test_humaneval_106_llm_iter_01.py'', ''assert f(1) == [1]'')]"
  have c: "chars_of_first (length ?ts) ?ts \<le> 6000"
    by (simp add: chars_of_first_def)
  have n: "?ts \<noteq> []"
    by simp
  from collect_prior_tests_text_other_files[of 2 ?files, unfolded f] n c
  have "collect_prior_tests_text 2 ?files = join [CHR 0x0A, CHR 0x0A] ?ts"
    by blast
  then have r: "collect_prior_tests_text 2 ?files
      = ''# test_humaneval_106_llm_iter_01.py'' @ [CHR 0x0A] @ ''assert f(1) == [1]''"
    by simp
  have w1: "collect_prior_tests_text 1 [] = ''None''"
    by (simp add: collect_prior_tests_text_def)
  have w2: "collect_prior_tests_text 2 [(''a_01.py'', replicate 1500 (CHR ''x''))]
      = ''# a_01.py'' @ [CHR 0x0A] @ replicate 1500 (CHR ''x'')"
    by (simp add: collect_prior_tests_text_def is_current_file_def endswith_def fmt02d_def
        str_int_def str_nat.simps digit_char_def with_header_def PRIOR_TESTS_CHAR_BUDGET_def
        newline_def truncation_marker_def Let_def)
  have w3: "collect_prior_tests_text 2 [(''a_01.py'', replicate 7000 (CHR ''x''))]
      = ''# a_01.py'' @ [CHR 0x0A] @ replicate 5990 (CHR ''x'')
       @ [CHR 0x0A] @ ''# ... (truncated)'' @ [CHR 0x0A]"
    by (simp add: collect_prior_tests_text_def is_current_file_def endswith_def fmt02d_def
        str_int_def str_nat.simps digit_char_def with_header_def PRIOR_TESTS_CHAR_BUDGET_def
        newline_def truncation_marker_def Let_def)
  have w4: "collect_prior_tests_text 3
        [(''a_01.py'', replicate 5900 (CHR ''x'')), (''a_02.py'', replicate 500 (CHR ''y''))]
      = ''# a_01.py'' @ [CHR 0x0A] @ replicate 5900 (CHR ''x'')"
    by (simp add: collect_prior_tests_text_def is_current_file_def endswith_def fmt02d_def
        str_int_def str_nat.simps digit_char_def with_header_def PRIOR_TESTS_CHAR_BUDGET_def
        newline_def truncation_marker_def Let_def)
  from p r w1 w2 w3 w4 show ?thesis by (intro conjI)
qed

text \<open>
  The claim as the specification words it (the files of the earlier rounds) fails when the
  directory holds files of later rounds, as \<^verbatim>\<open>tests/problem_106\<close> of the repository
  does with its files of rounds 1 and 3: round 2 is shown the file of round 3, and round 1
  is shown it too instead of \<^verbatim>\<open>None\<close>.
\<close>

theorem collect_prior_tests_text_counterexample:
  "collect_prior_tests_text 2
      [(''test_humaneval_106_llm_iter_01.py'', ''a = 1''),
       (''test_humaneval_106_llm_iter_03.py'', ''c = 3'')]
     = ''# test_humaneval_106_llm_iter_01.py'' @ [CHR 0x0A] @ ''a = 1'' @ [CHR 0x0A, CHR 0x0A]
       @ ''# test_humaneval_106_llm_iter_03.py'' @ [CHR 0x0A] @ ''c = 3''
   \<and> claimed_prior_tests_text 2
      [(''test_humaneval_106_llm_iter_01.py'', ''a = 1''),
       (''test_humaneval_106_llm_iter_03.py'', ''c = 3'')]
     = ''# test_humaneval_106_llm_iter_01.py'' @ [CHR 0x0A] @ ''a = 1''
   \<and> collect_prior_tests_text 1
      [(''test_humaneval_106_llm_iter_01.py'', ''a = 1''),
       (''test_humaneval_106_llm_iter_03.py'', ''c = 3'')]
     = ''# test_humaneval_106_llm_iter_03.py'' @ [CHR 0x0A] @ ''c = 3''
   \<and> claimed_prior_tests_text 1
      [(''test_humaneval_106_llm_iter_01.py'', ''a = 1''),
       (''test_humaneval_106_llm_iter_03.py'', ''c = 3'')]
     = ''None''"
  by code_simp

subsection \<open>The assertion rewriter\<close>

lemma asserts_of_AssertRecorder: "asserts_of (AssertRecorder s) = []"
  by (induction s rule: AssertRecorder.induct) simp_all

lemma asserts_of_rewritten_block: "concat (map asserts_of (map AssertRecorder ss)) = []"
  by (simp add: asserts_of_AssertRecorder)

lemma direct_asserts_rewritten: "direct_asserts (map AssertRecorder ss) = []"
  by (induction ss rule: direct_asserts.induct) simp_all

lemma hook_calls_msg_or_none:
  "hook_calls_expr (msg_or_none msg) = (case msg of None \<Rightarrow> [] | Some e \<Rightarrow> hook_calls_expr e)"
  by (simp add: msg_or_none_def split: option.splits)

lemma length_hook_calls_AssertRecorder:
  "length (hook_calls (AssertRecorder s)) = length (asserts_of s) + length (hook_calls s)"
proof (induction s rule: AssertRecorder.induct)
  case (4 c body orelse)
  have "length (concat (map hook_calls (map AssertRecorder ss)))
        = length (concat (map asserts_of ss)) + length (concat (map hook_calls ss))"
    if "\<And>x. x \<in> set ss \<Longrightarrow> length (hook_calls (AssertRecorder x))
             = length (asserts_of x) + length (hook_calls x)" for ss
    using that by (induction ss) simp_all
  then show ?case using 4 by simp
next
  case (5 name args body)
  have "length (concat (map hook_calls (map AssertRecorder ss)))
        = length (concat (map asserts_of ss)) + length (concat (map hook_calls ss))"
    if "\<And>x. x \<in> set ss \<Longrightarrow> length (hook_calls (AssertRecorder x))
             = length (asserts_of x) + length (hook_calls x)" for ss
    using that by (induction ss) simp_all
  then show ?case using 5 by simp
qed (simp_all add: hook_calls_msg_or_none)


lemma concat_map_Nil_iff: "concat (map f xs) = [] \<longleftrightarrow> (\<forall>x \<in> set xs. f x = [])"
  by (induction xs) auto

lemma block_hook_calls:
  assumes "\<And>x. x \<in> set ss \<Longrightarrow> hook_calls x = [] \<Longrightarrow>
             hook_calls (AssertRecorder x) = map hook_args (asserts_of x)"
    and "concat (map hook_calls ss) = []"
  shows "concat (map hook_calls (map AssertRecorder ss)) = map hook_args (concat (map asserts_of ss))"
  using assms by (induction ss) (simp_all add: concat_map_Nil_iff)

lemma hook_calls_AssertRecorder:
  "hook_calls s = [] \<Longrightarrow> hook_calls (AssertRecorder s) = map hook_args (asserts_of s)"
proof (induction s rule: AssertRecorder.induct)
  case (1 test msg lineno)
  then have "hook_calls_expr test = []" and "hook_calls_expr (msg_or_none msg) = []"
    by (simp_all add: hook_calls_msg_or_none)
  then show ?case by (simp add: hook_args_def)
next
  case (4 c body orelse)
  from 4(3) have c: "hook_calls_expr c = []"
    and b: "concat (map hook_calls body) = []" and e: "concat (map hook_calls orelse) = []"
    by simp_all
  show ?case
    using block_hook_calls[OF 4(1) b] block_hook_calls[OF 4(2) e] c by simp
next
  case (5 name args body)
  from 5(2) have b: "concat (map hook_calls body) = []" by simp
  show ?case using block_hook_calls[OF 5(1) b] by simp
qed simp_all

lemma hook_calls_rewritten_block:
  "concat (map hook_calls body) = [] \<Longrightarrow>
   concat (map hook_calls (map AssertRecorder body)) = map hook_args (concat (map asserts_of body))"
  by (rule block_hook_calls) (simp_all add: hook_calls_AssertRecorder)

lemma length_hook_calls_rewritten_block:
  "length (concat (map hook_calls (map AssertRecorder body)))
   = length (concat (map asserts_of body)) + length (concat (map hook_calls body))"
  by (induction body) (simp_all add: length_hook_calls_AssertRecorder)

lemma direct_hook_calls_rewritten:
  "direct_hook_calls body = [] \<Longrightarrow>
   direct_hook_calls (map AssertRecorder body) = map hook_args (direct_asserts body)"
proof (induction body rule: direct_hook_calls.induct)
  case (2 f args ss)
  then show ?case by (simp split: if_splits)
qed (simp_all add: hook_args_def)

lemma instrument_nth:
  "i < length tree \<Longrightarrow> tree ! i = FunctionDef name args body \<Longrightarrow>
   instrument_test_code tree ! i =
     (if is_check name args then FunctionDef name args (map AssertRecorder body)
      else FunctionDef name args body)"
  by (simp add: instrument_test_code_def)

text \<open>
  Claim C3.  Let a top-level statement of the test module be a definition.  If it is not
  the check routine (its name is not \<^verbatim>\<open>check\<close> or no parameter is called
  \<^verbatim>\<open>candidate\<close>), the rewritten module has the same definition at the same place,
  assert statements included.  If it is the check routine, the rewritten routine has the
  same name and parameters and a body that contains no assert statement, neither direct
  nor nested; the number of hook calls in it is the number of assert statements of the
  original body plus the number of hook calls the original already had; and when the
  source does not call the hook itself, the hook calls of the rewritten body are, in source
  order, exactly one call per assert statement, with the arguments: the original test
  expression, the original message expression or the constant \<^verbatim>\<open>None\<close>, and the
  constant of the original line number.  The same holds when only the direct statements
  of the body are counted on both sides.
\<close>

theorem check_asserts_become_hook_calls:
  assumes "i < length tree" and "tree ! i = FunctionDef name args body"
  shows "length (instrument_test_code tree) = length tree
    \<and> (\<not> is_check name args \<longrightarrow> instrument_test_code tree ! i = FunctionDef name args body)
    \<and> (is_check name args \<longrightarrow>
          instrument_test_code tree ! i = FunctionDef name args (map AssertRecorder body)
          \<and> concat (map asserts_of (map AssertRecorder body)) = []
          \<and> direct_asserts (map AssertRecorder body) = []
          \<and> length (concat (map hook_calls (map AssertRecorder body)))
              = length (concat (map asserts_of body)) + length (concat (map hook_calls body))
          \<and> (concat (map hook_calls body) = [] \<longrightarrow>
                concat (map hook_calls (map AssertRecorder body))
                = map hook_args (concat (map asserts_of body)))
          \<and> (direct_hook_calls body = [] \<longrightarrow>
                direct_hook_calls (map AssertRecorder body) = map hook_args (direct_asserts body)))"
  using instrument_nth[OF assms] asserts_of_rewritten_block[of body] direct_asserts_rewritten[of body]
    length_hook_calls_rewritten_block[of body] hook_calls_rewritten_block[of body]
    direct_hook_calls_rewritten[of body]
  by (simp add: instrument_test_code_def)

theorem check_asserts_become_hook_calls_witness:
  "example_test ! 1 = FunctionDef ''check'' [''candidate'']
        [Assert (CompareEq (Call (Name ''candidate'') [Constant (CInt 1)]) (Constant (CInt 1)))
           (Some (Constant (CStr ''one''))) 4,
         IfStmt (Call (Name ''candidate'') [Constant (CInt 0)])
           [Assert (Call (Name ''candidate'') [Constant (CInt 2)]) None 6] [],
         Assert (Call (Name ''candidate'') [Constant (CInt 3)]) None 7]
   \<and> is_check ''check'' [''candidate'']
   \<and> instrument_test_code example_test ! 1 = FunctionDef ''check'' [''candidate'']
        [Expr (Call (Name ''__rec'')
           [CompareEq (Call (Name ''candidate'') [Constant (CInt 1)]) (Constant (CInt 1)),
            Constant (CStr ''one''), Constant (CInt 4)]),
         IfStmt (Call (Name ''candidate'') [Constant (CInt 0)])
           [Expr (Call (Name ''__rec'')
              [Call (Name ''candidate'') [Constant (CInt 2)], Constant CNone, Constant (CInt 6)])]
           [],
         Expr (Call (Name ''__rec'')
           [Call (Name ''candidate'') [Constant (CInt 3)], Constant CNone, Constant (CInt 7)])]
   \<and> example_test ! 0 = FunctionDef ''helper'' [''x''] [Assert (Name ''x'') None 2]
   \<and> instrument_test_code example_test ! 0 = FunctionDef ''helper'' [''x''] [Assert (Name ''x'') None 2]"
proof -
  let ?body = "[Assert (CompareEq (Call (Name ''candidate'') [Constant (CInt 1)]) (Constant (CInt 1)))
           (Some (Constant (CStr ''one''))) 4,
         IfStmt (Call (Name ''candidate'') [Constant (CInt 0)])
           [Assert (Call (Name ''candidate'') [Constant (CInt 2)]) None 6] [],
         Assert (Call (Name ''candidate'') [Constant (CInt 3)]) None 7]"
  have l: "(1::nat) < length example_test" "(0::nat) < length example_test"
    by (simp_all add: example_test_def)
  have c: "example_test ! 1 = FunctionDef ''check'' [''candidate''] ?body"
    by (simp add: example_test_def)
  have h: "example_test ! 0 = FunctionDef ''helper'' [''x''] [Assert (Name ''x'') None 2]"
    by (simp add: example_test_def)
  have ic: "is_check ''check'' [''candidate'']" and nh: "\<not> is_check ''helper'' [''x'']"
    by (simp_all add: is_check_def)
  from check_asserts_become_hook_calls[OF l(1) c] ic
  have "instrument_test_code example_test ! 1
        = FunctionDef ''check'' [''candidate''] (map AssertRecorder ?body)"
    by blast
  then have r1: "instrument_test_code example_test ! 1 = FunctionDef ''check'' [''candidate'']
        [Expr (Call (Name ''__rec'')
           [CompareEq (Call (Name ''candidate'') [Constant (CInt 1)]) (Constant (CInt 1)),
            Constant (CStr ''one''), Constant (CInt 4)]),
         IfStmt (Call (Name ''candidate'') [Constant (CInt 0)])
           [Expr (Call (Name ''__rec'')
              [Call (Name ''candidate'') [Constant (CInt 2)], Constant CNone, Constant (CInt 6)])]
           [],
         Expr (Call (Name ''__rec'')
           [Call (Name ''candidate'') [Constant (CInt 3)], Constant CNone, Constant (CInt 7)])]"
    by (simp add: msg_or_none_def)
  from check_asserts_become_hook_calls[OF l(2) h] nh
  have r0: "instrument_test_code example_test ! 0
        = FunctionDef ''helper'' [''x''] [Assert (Name ''x'') None 2]"
    by blast
  from c ic r1 h r0 show ?thesis by (intro conjI)
qed

subsection \<open>Records of a straight-line check routine\<close>

lemma apply_value_pure:
  "fv \<noteq> Hook \<Longrightarrow>
   apply_value cand records fv vs = (records, snd (apply_value cand [] fv vs))
   \<and> snd (apply_value cand [] fv vs) \<noteq> Val Hook"
  by (cases fv) (auto split: option.splits sum.splits)



lemma eval_list_pure:
  assumes "\<And>e records. e \<in> set es \<Longrightarrow>
             eval cand look records e = (records, snd (eval cand look [] e))"
  shows "eval_list cand look records es = (records, snd (eval_list cand look [] es))"
  using assms
proof (induction es arbitrary: records)
  case Nil
  show ?case by simp
next
  case (Cons e es)
  define re where "re = snd (eval cand look [] e)"
  define res where "res = snd (eval_list cand look [] es)"
  have e: "eval cand look r e = (r, re)" for r
    unfolding re_def by (rule Cons.prems) simp
  have es: "eval_list cand look r es = (r, res)" for r
    unfolding res_def by (rule Cons.IH, rule Cons.prems) simp
  show ?case
    by (simp add: e es split: outcome.splits)
qed

lemma eval_pure:
  assumes "look_ok look"
  shows "''__rec'' \<notin> set (names_of e) \<Longrightarrow>
         eval cand look records e = (records, snd (eval cand look [] e))
         \<and> snd (eval cand look [] e) \<noteq> Val Hook"
proof (induction e arbitrary: records)
  case (Constant k)
  show ?case by simp
next
  case (Name n)
  then have "n \<noteq> ''__rec''" by simp
  then show ?case using assms by (auto simp: look_ok_def split: option.splits)
next
  case (Call f args)
  have nf: "''__rec'' \<notin> set (names_of f)"
    and na: "\<And>a. a \<in> set args \<Longrightarrow> ''__rec'' \<notin> set (names_of a)"
    using Call.prems by auto
  define rf where "rf = snd (eval cand look [] f)"
  define rl where "rl = snd (eval_list cand look [] args)"
  have f: "eval cand look r f = (r, rf)" for r
    unfolding rf_def by (rule Call.IH(1)[OF nf, THEN conjunct1])
  have fh: "rf \<noteq> Val Hook"
    unfolding rf_def by (rule Call.IH(1)[OF nf, THEN conjunct2])
  have "eval cand look r a = (r, snd (eval cand look [] a))" if "a \<in> set args" for a r
    by (rule Call.IH(2)[OF that na[OF that], THEN conjunct1])
  then have l: "eval_list cand look r args = (r, rl)" for r
    unfolding rl_def by (rule eval_list_pure)
  show ?case
  proof (cases rf)
    case (Val fv)
    then have nh: "fv \<noteq> Hook" using fh by auto
    show ?thesis
    proof (cases rl)
      case vs: (Val vs)
      define ra where "ra = snd (apply_value cand [] fv vs)"
      have ap: "apply_value cand r fv vs = (r, ra)" for r
        unfolding ra_def by (rule apply_value_pure[OF nh, THEN conjunct1])
      have "ra \<noteq> Val Hook"
        unfolding ra_def by (rule apply_value_pure[OF nh, THEN conjunct2])
      then show ?thesis by (simp add: f l Val vs ap)
    qed (simp_all add: f l Val)
  qed (simp_all add: f)
next
  case (CompareEq a b)
  have na: "''__rec'' \<notin> set (names_of a)" and nb: "''__rec'' \<notin> set (names_of b)"
    using CompareEq.prems by auto
  define ra where "ra = snd (eval cand look [] a)"
  define rb where "rb = snd (eval cand look [] b)"
  have a: "eval cand look r a = (r, ra)" for r
    unfolding ra_def by (rule CompareEq.IH(1)[OF na, THEN conjunct1])
  have b: "eval cand look r b = (r, rb)" for r
    unfolding rb_def by (rule CompareEq.IH(2)[OF nb, THEN conjunct1])
  show ?case
    by (simp add: a b split: outcome.splits)
qed


lemma lookup_recs [simp]: "lookup sc (st\<lparr>recs := r\<rparr>) = lookup sc st"
  by (simp add: lookup_def fun_eq_iff split: scope.splits)

lemma eval_evaluates:
  assumes "look_ok look" and "evaluates cand look e"
  shows "eval cand look records e = (records, Val (test_value cand look e))"
proof -
  from assms(2) obtain v where nf: "''__rec'' \<notin> set (names_of e)"
    and v: "snd (eval cand look [] e) = Val v"
    by (auto simp: evaluates_def)
  have "eval cand look records e = (records, snd (eval cand look [] e))"
    by (rule eval_pure[OF assms(1) nf, THEN conjunct1])
  then show ?thesis by (simp add: v test_value_def)
qed

lemma eval_msg:
  assumes "look_ok look"
    and "case msg of None \<Rightarrow> True | Some e \<Rightarrow> evaluates_to_const cand look e"
  shows "\<exists>k. eval cand look records (msg_or_none msg) = (records, Val (Lit k))
             \<and> hook_msg (Lit k) = Val (msg_text cand look msg)"
proof (cases msg)
  case None
  then show ?thesis by (simp add: msg_or_none_def msg_text_def)
next
  case (Some e)
  with assms(2) obtain k where nf: "''__rec'' \<notin> set (names_of e)"
    and k: "snd (eval cand look [] e) = Val (Lit k)"
    by (auto simp: evaluates_to_const_def)
  have "eval cand look records e = (records, snd (eval cand look [] e))"
    by (rule eval_pure[OF assms(1) nf, THEN conjunct1])
  then have "eval cand look records (msg_or_none msg) = (records, Val (Lit k))"
    using Some by (simp add: k msg_or_none_def)
  moreover have "hook_msg (Lit k) = Val (msg_text cand look msg)"
    using Some by (cases k) (simp_all add: msg_text_def test_value_def k)
  ultimately show ?thesis by blast
qed

lemma eval_hook_call:
  assumes "look_ok look" and "look ''__rec'' = Some Hook"
    and "evaluates cand look tst"
    and "case msg of None \<Rightarrow> True | Some e \<Rightarrow> evaluates_to_const cand look e"
  shows "eval cand look records (Call (Name ''__rec'') [tst, msg_or_none msg, Constant (CInt lineno)])
         = (records @ [assert_outcome cand look (tst, msg, lineno)], Val (Lit CNone))"
proof -
  obtain k where m: "eval cand look records (msg_or_none msg) = (records, Val (Lit k))"
    and h: "hook_msg (Lit k) = Val (msg_text cand look msg)"
    using eval_msg[OF assms(1,4)] by blast
  show ?thesis
    by (simp add: assms(2) eval_evaluates[OF assms(1,3)] m h assert_outcome_def)
qed

lemma exec_straight:
  assumes "look_ok (lookup sc st)" and "lookup sc st ''__rec'' = Some Hook"
    and "\<forall>s \<in> set body. runs_quietly cand (lookup sc st) s"
  shows "exec_block cand sc st (map AssertRecorder body)
         = (st\<lparr>recs := recs st @ map (assert_outcome cand (lookup sc st)) (direct_asserts body)\<rparr>,
            Normal)"
  using assms
proof (induction body arbitrary: st)
  case Nil
  show ?case by simp
next
  case (Cons s body)
  have q: "runs_quietly cand (lookup sc st) s" using Cons.prems(3) by simp
  show ?case
  proof (cases s)
    case (Assert tst msg lineno)
    let ?st1 = "st\<lparr>recs := recs st @ [assert_outcome cand (lookup sc st) (tst, msg, lineno)]\<rparr>"
    have h: "eval cand (lookup sc st) (recs st)
               (Call (Name ''__rec'') [tst, msg_or_none msg, Constant (CInt lineno)])
             = (recs st @ [assert_outcome cand (lookup sc st) (tst, msg, lineno)], Val (Lit CNone))"
      by (rule eval_hook_call) (use q Assert Cons.prems(1,2) in simp_all)
    have e: "exec cand sc st (AssertRecorder s) = (?st1, Normal)"
      using Assert by (simp add: eval_in_def h del: eval.simps)
    have "exec_block cand sc ?st1 (map AssertRecorder body)
          = (?st1\<lparr>recs := recs ?st1 @ map (assert_outcome cand (lookup sc ?st1)) (direct_asserts body)\<rparr>,
             Normal)"
      using Cons.prems by (intro Cons.IH) simp_all
    then show ?thesis using e Assert by simp
  next
    case (Expr e)
    have e: "exec cand sc st (AssertRecorder s) = (st, Normal)"
      using q Expr Cons.prems(1)
      by (simp add: eval_in_def eval_evaluates)
    show ?thesis using e Expr Cons.IH[OF Cons.prems(1,2)] Cons.prems(3) by simp
  qed (use q in simp_all)
qed


lemma def_bindings_append: "def_bindings (xs @ ys) = def_bindings xs @ def_bindings ys"
  by (induction xs rule: def_bindings.induct) simp_all

lemma exec_defs:
  "\<forall>s \<in> set ds. \<exists>n a b. s = FunctionDef n a b \<Longrightarrow>
   exec_block cand ModuleLevel st ds = (st\<lparr>globs := rev (def_bindings ds) @ globs st\<rparr>, Normal)"
proof (induction ds arbitrary: st)
  case Nil
  show ?case by simp
next
  case (Cons d ds)
  then obtain n a b where d: "d = FunctionDef n a b" by auto
  have "exec_block cand ModuleLevel (bind ModuleLevel st n (Func n a b)) ds
        = ((bind ModuleLevel st n (Func n a b))
             \<lparr>globs := rev (def_bindings ds) @ globs (bind ModuleLevel st n (Func n a b))\<rparr>, Normal)"
    using Cons.prems by (intro Cons.IH) simp
  then show ?case by (simp add: d bind_def)
qed

lemma helpers_unchanged: "\<forall>s \<in> set hs. helper_def s \<Longrightarrow> map CheckOnly hs = hs"
proof (induction hs)
  case Nil
  show ?case by simp
next
  case (Cons h hs)
  then show ?case by (cases h) (simp_all add: is_check_def)
qed

lemma helper_bindings:
  "\<forall>s \<in> set hs. helper_def s \<Longrightarrow> (n, v) \<in> set (def_bindings hs) \<Longrightarrow>
   n \<noteq> ''check'' \<and> n \<noteq> ''__rec'' \<and> v \<noteq> Hook"
proof (induction hs)
  case Nil
  then show ?case by simp
next
  case (Cons h hs)
  then show ?case by (cases h) auto
qed

lemma helpers_are_defs: "\<forall>s \<in> set hs. helper_def s \<Longrightarrow> \<forall>s \<in> set hs. \<exists>n a b. s = FunctionDef n a b"
proof
  fix s assume "\<forall>s \<in> set hs. helper_def s" and "s \<in> set hs"
  then have "helper_def s" by simp
  then show "\<exists>n a b. s = FunctionDef n a b" by (cases s) simp_all
qed

lemma helpers_no_return: "\<forall>s \<in> set hs. helper_def s \<Longrightarrow> \<forall>s \<in> set hs. \<not> return_outside s"
proof
  fix s assume "\<forall>s \<in> set hs. helper_def s" and "s \<in> set hs"
  then have "helper_def s" by simp
  then show "\<not> return_outside s" by (cases s) simp_all
qed

lemma module_of_defs:
  assumes "tree = pre @ FunctionDef ''check'' [''candidate''] body # post"
    and "\<forall>s \<in> set (pre @ post). helper_def s"
  defines "G \<equiv> rev (def_bindings post)
                 @ [(''check'', Func ''check'' [''candidate''] (map AssertRecorder body))]
                 @ rev (def_bindings pre) @ [(''__rec'', Hook)]"
  shows "exec_module cand tree = (\<lparr>globs = G, locs = [], recs = []\<rparr>, Normal)"
    and "map_of G ''check'' = Some (Func ''check'' [''candidate''] (map AssertRecorder body))"
    and "map_of G ''__rec'' = Some Hook"
    and "\<forall>n. map_of G n = Some Hook \<longrightarrow> n = ''__rec''"
    and "\<forall>s \<in> set tree. \<not> return_outside s"
proof -
  have hp: "\<forall>s \<in> set pre. helper_def s" and hq: "\<forall>s \<in> set post. helper_def s"
    using assms(2) by auto
  have ck: "CheckOnly (FunctionDef ''check'' [''candidate''] body)
            = FunctionDef ''check'' [''candidate''] (map AssertRecorder body)"
    by (simp add: is_check_def)
  have it: "instrument_test_code tree
            = pre @ FunctionDef ''check'' [''candidate''] (map AssertRecorder body) # post"
    unfolding instrument_test_code_def assms(1)
    using helpers_unchanged[OF hp] helpers_unchanged[OF hq] by (simp add: ck del: CheckOnly.simps)
  have defs: "\<forall>s \<in> set (pre @ FunctionDef ''check'' [''candidate''] (map AssertRecorder body) # post).
                \<exists>n a b. s = FunctionDef n a b"
    using helpers_are_defs[OF hp] helpers_are_defs[OF hq] by auto
  show "exec_module cand tree = (\<lparr>globs = G, locs = [], recs = []\<rparr>, Normal)"
    unfolding exec_module_def it exec_defs[OF defs]
    by (simp add: initial_state_def G_def def_bindings_append)
  have nq: "map_of (rev (def_bindings post)) ''check'' = None"
    using helper_bindings[OF hq] by (force simp: map_of_eq_None_iff)
  show "map_of G ''check'' = Some (Func ''check'' [''candidate''] (map AssertRecorder body))"
    unfolding G_def by (simp add: map_add_def nq)
  have rq: "map_of (rev (def_bindings post)) ''__rec'' = None"
    using helper_bindings[OF hq] by (force simp: map_of_eq_None_iff)
  have rp: "map_of (rev (def_bindings pre)) ''__rec'' = None"
    using helper_bindings[OF hp] by (force simp: map_of_eq_None_iff)
  show "map_of G ''__rec'' = Some Hook"
    unfolding G_def by (simp add: map_add_def rq rp)
  show "\<forall>n. map_of G n = Some Hook \<longrightarrow> n = ''__rec''"
  proof (intro allI impI)
    fix n assume "map_of G n = Some Hook"
    then have "(n, Hook) \<in> set G" by (rule map_of_SomeD)
    then show "n = ''__rec''"
      unfolding G_def using helper_bindings[OF hp, of n Hook] helper_bindings[OF hq, of n Hook]
      by auto
  qed
  show "\<forall>s \<in> set tree. \<not> return_outside s"
    unfolding assms(1) using helpers_no_return[OF hp] helpers_no_return[OF hq] by auto
qed


lemma count_records_outcomes:
  "count_records (map (assert_outcome cand look) as)
   = (length as,
      length (filter (test_truthy cand look) as),
      length (filter (\<lambda>a. \<not> test_truthy cand look a) as),
      map (assert_outcome cand look) (filter (\<lambda>a. \<not> test_truthy cand look a) as))"
proof -
  have ok: "(case assert_outcome cand look a of (lno, ok, msg) \<Rightarrow> ok) = test_truthy cand look a" for a
    by (cases a) (simp add: assert_outcome_def test_truthy_def)
  have nok: "(case assert_outcome cand look a of (lno, ok, msg) \<Rightarrow> \<not> ok) = (\<not> test_truthy cand look a)" for a
    by (cases a) (simp add: assert_outcome_def test_truthy_def)
  have all: "(case assert_outcome cand look a of (lno, ok, msg) \<Rightarrow> ok \<or> \<not> ok)" for a
    by (cases a) (simp add: assert_outcome_def)
  show ?thesis
    by (simp add: count_records_def filter_map comp_def ok nok all)
qed

lemma straight_asserts:
  "\<forall>s \<in> set body. runs_quietly cand look s \<Longrightarrow> concat (map asserts_of body) = direct_asserts body"
proof (induction body)
  case Nil
  show ?case by simp
next
  case (Cons s body)
  then show ?case by (cases s) simp_all
qed

lemma straight_no_bindings:
  "\<forall>s \<in> set body. runs_quietly cand look s \<Longrightarrow> concat (map bound_names (map AssertRecorder body)) = []"
proof (induction body)
  case Nil
  show ?case by simp
next
  case (Cons s body)
  then show ?case by (cases s) simp_all
qed

text \<open>
  Claim C1, as the code has it.  Let the test module consist of helper definitions and one
  routine \<^verbatim>\<open>check(candidate)\<close> whose body is a straight line of assert statements
  and expression statements (no assert statement under an \<^verbatim>\<open>if\<close>, no
  \<^verbatim>\<open>return\<close>, no nested definition), and let none of its expressions mention
  \<^verbatim>\<open>__rec\<close> or raise for the candidate, every message evaluating to a constant.
  Then every assert statement of the routine is a direct statement of its body, and with
  \<open>k\<close> their number the instrumented execution makes exactly \<open>k\<close> records, in source
  order, one per assert statement: its line number, the truth value of its test, and its
  message text.  The executor returns \<open>total = k\<close>, \<open>passed\<close> the number of assert
  statements whose test is truthy, \<open>failed\<close> the number of those whose test is falsy,
  and the records of the latter; a false assertion does not stop the later ones.
\<close>

theorem straight_check_records_every_assert:
  assumes "tree = pre @ FunctionDef ''check'' [''candidate''] body # post"
    and "\<forall>s \<in> set (pre @ post). helper_def s"
    and "\<forall>s \<in> set body. runs_quietly cand (check_look cand tree) s"
  shows "run_check_and_count_asserts cand (Module tree) =
      Some (length (direct_asserts body),
            length (filter (test_truthy cand (check_look cand tree)) (direct_asserts body)),
            length (filter (\<lambda>a. \<not> test_truthy cand (check_look cand tree) a) (direct_asserts body)),
            map (assert_outcome cand (check_look cand tree))
              (filter (\<lambda>a. \<not> test_truthy cand (check_look cand tree) a) (direct_asserts body)))
    \<and> concat (map asserts_of body) = direct_asserts body
    \<and> (\<exists>st. call_check cand (fst (exec_module cand tree)) [''candidate''] (map AssertRecorder body)
               = (st, Normal)
             \<and> recs st = map (assert_outcome cand (check_look cand tree)) (direct_asserts body))"
proof -
  define G where "G = rev (def_bindings post)
                 @ [(''check'', Func ''check'' [''candidate''] (map AssertRecorder body))]
                 @ rev (def_bindings pre) @ [(''__rec'', Hook)]"
  define st0 where "st0 = \<lparr>globs = G, locs = [], recs = []\<rparr>"
  define st1 where "st1 = st0\<lparr>locs := [(''candidate'', Candidate)]\<rparr>"
  define sc where "sc = InFunction [''candidate'']"
  note m = module_of_defs[OF assms(1,2), folded G_def]
  have em: "exec_module cand tree = (st0, Normal)" unfolding st0_def by (rule m(1))
  have look: "check_look cand tree = lookup sc st1"
    by (simp add: check_look_def em st1_def sc_def)
  have lk: "lookup sc st1 n = (if n = ''candidate'' then Some Candidate else map_of G n)" for n
    by (simp add: lookup_def sc_def st1_def st0_def)
  have ok: "look_ok (lookup sc st1)"
    unfolding look_ok_def lk using m(4) by auto
  have hk: "lookup sc st1 ''__rec'' = Some Hook"
    unfolding lk using m(3) by simp
  have q: "\<forall>s \<in> set body. runs_quietly cand (lookup sc st1) s"
    using assms(3) unfolding look .
  have ln: "local_names [''candidate''] (map AssertRecorder body) = [''candidate'']"
    using straight_no_bindings[OF q] by (simp add: local_names_def)
  have cc: "call_check cand st0 [''candidate''] (map AssertRecorder body)
            = (st1\<lparr>recs := map (assert_outcome cand (lookup sc st1)) (direct_asserts body)\<rparr>, Normal)"
    using exec_straight[OF ok hk q]
    by (simp add: call_check_def ln sc_def [symmetric] st1_def [symmetric]) (simp add: st1_def st0_def)
  have gc: "map_of (globs st0) ''check'' = Some (Func ''check'' [''candidate''] (map AssertRecorder body))"
    unfolding st0_def using m(2) by simp
  have nm: "\<not> check_missing st0"
    by (simp add: check_missing_def gc)
  have run: "run_check_and_count_asserts cand (Module tree)
             = Some (count_records (map (assert_outcome cand (lookup sc st1)) (direct_asserts body)))"
    using m(5) by (simp add: run_check_and_count_asserts_def em nm gc cc after_check_def)
  have a: "concat (map asserts_of body) = direct_asserts body"
    by (rule straight_asserts[OF q])
  have b: "\<exists>st. call_check cand (fst (exec_module cand tree)) [''candidate''] (map AssertRecorder body)
               = (st, Normal)
             \<and> recs st = map (assert_outcome cand (check_look cand tree)) (direct_asserts body)"
    unfolding look em using cc by simp
  from run a b show ?thesis
    unfolding look count_records_outcomes by (intro conjI)
qed

theorem straight_check_records_every_assert_witness:
  "five_test = [FunctionDef ''helper'' [''x''] [Assert (Name ''x'') None 9]]
               @ FunctionDef ''check'' [''candidate''] five_asserts # []
   \<and> helper_def (FunctionDef ''helper'' [''x''] [Assert (Name ''x'') None 9])
   \<and> length (direct_asserts five_asserts) = 5
   \<and> run_check_and_count_asserts first_arg (Module five_test)
       = Some (5, 3, 2, [(3, False, None), (5, False, Some ''fourth'')])"
proof -
  let ?pre = "[FunctionDef ''helper'' [''x''] [Assert (Name ''x'') None 9]]"
  have t: "five_test = ?pre @ FunctionDef ''check'' [''candidate''] five_asserts # []"
    by (simp add: five_test_def)
  have h: "\<forall>s \<in> set (?pre @ []). helper_def s"
    by simp
  have lk: "check_look first_arg five_test
            = (\<lambda>n. if n = ''candidate'' then Some Candidate
                    else map_of [(''check'', Func ''check'' [''candidate''] (map AssertRecorder five_asserts)),
                                 (''helper'', Func ''helper'' [''x''] [Assert (Name ''x'') None 9]),
                                 (''__rec'', Hook)] n)"
    by (simp add: check_look_def exec_module_def five_test_def instrument_test_code_def
        is_check_def initial_state_def bind_def lookup_def fun_eq_iff)
  have q: "\<forall>s \<in> set five_asserts. runs_quietly first_arg (check_look first_arg five_test) s"
    unfolding lk
    by (simp add: five_asserts_def evaluates_def evaluates_to_const_def first_arg_def)
  have n: "length (direct_asserts five_asserts) = 5"
    by (simp add: five_asserts_def)
  from straight_check_records_every_assert[OF t h q]
  have "run_check_and_count_asserts first_arg (Module five_test) =
      Some (length (direct_asserts five_asserts),
            length (filter (test_truthy first_arg (check_look first_arg five_test)) (direct_asserts five_asserts)),
            length (filter (\<lambda>a. \<not> test_truthy first_arg (check_look first_arg five_test) a) (direct_asserts five_asserts)),
            map (assert_outcome first_arg (check_look first_arg five_test))
              (filter (\<lambda>a. \<not> test_truthy first_arg (check_look first_arg five_test) a) (direct_asserts five_asserts)))"
    by blast
  then have r: "run_check_and_count_asserts first_arg (Module five_test)
       = Some (5, 3, 2, [(3, False, None), (5, False, Some ''fourth'')])"
    unfolding lk
    by (simp add: five_asserts_def test_truthy_def assert_outcome_def test_value_def msg_text_def
        first_arg_def)
  from t n r show ?thesis by simp
qed

text \<open>
  The claim as the specification words it (for every check routine that contains \<open>k\<close>
  assert statements) fails when an assert statement is not executed exactly once.  The
  check routine of \<open>example_test\<close> contains three assert statements, none of which
  raises for the candidate \<open>first_arg\<close>; the one under the \<^verbatim>\<open>if\<close> is not
  reached and two records are made.  After a \<^verbatim>\<open>return\<close> no record is made.
\<close>

theorem conditional_assert_counterexample:
  "concat (map asserts_of
      [Assert (CompareEq (Call (Name ''candidate'') [Constant (CInt 1)]) (Constant (CInt 1)))
         (Some (Constant (CStr ''one''))) 4,
       IfStmt (Call (Name ''candidate'') [Constant (CInt 0)])
         [Assert (Call (Name ''candidate'') [Constant (CInt 2)]) None 6] [],
       Assert (Call (Name ''candidate'') [Constant (CInt 3)]) None 7])
     = [(CompareEq (Call (Name ''candidate'') [Constant (CInt 1)]) (Constant (CInt 1)),
         Some (Constant (CStr ''one'')), 4),
        (Call (Name ''candidate'') [Constant (CInt 2)], None, 6),
        (Call (Name ''candidate'') [Constant (CInt 3)], None, 7)]
   \<and> run_check_and_count_asserts first_arg (Module example_test) = Some (2, 2, 0, [])
   \<and> run_check_and_count_asserts first_arg
        (Module [FunctionDef ''check'' [''candidate'']
           [Return None, Assert (Call (Name ''candidate'') [Constant (CInt 1)]) None 3]])
       = Some (0, 0, 0, [])"
proof -
  have a: "run_check_and_count_asserts first_arg (Module example_test) = Some (2, 2, 0, [])"
    by code_simp
  have b: "run_check_and_count_asserts first_arg
        (Module [FunctionDef ''check'' [''candidate'']
           [Return None, Assert (Call (Name ''candidate'') [Constant (CInt 1)]) None 3]])
       = Some (0, 0, 0, [])"
    by code_simp
  from a b show ?thesis by simp
qed

subsection \<open>The instrumented executor\<close>

lemma count_records_total:
  "count_records records = (t, p, f, d) \<Longrightarrow> t = length records \<and> p + f = t \<and> f = length d"
proof -
  have "length (filter (\<lambda>(lno, ok, msg). ok) rs) + length (filter (\<lambda>(lno, ok, msg). \<not> ok) rs)
        = length rs" for rs :: "record_t list"
    by (induction rs) auto
  moreover have "filter (\<lambda>(lno, ok, msg). ok \<or> \<not> ok) rs = rs" for rs :: "record_t list"
    by (induction rs) auto
  ultimately show "count_records records = (t, p, f, d) \<Longrightarrow> ?thesis"
    by (auto simp: count_records_def)
qed

lemma count_records_snoc_failure:
  "count_records (records @ [(0, False, m)]) =
     (case count_records records of (t, p, f, d) \<Rightarrow> (Suc t, p, Suc f, d @ [(0, False, m)]))"
  by (simp add: count_records_def)

lemma after_check_adds_up:
  "after_check r = Some (t, p, f, d) \<Longrightarrow> p + f = t"
  by (cases r) (auto simp: after_check_def dest: count_records_total split: flow.splits)

lemma run_adds_up_or_synthetic:
  assumes "run_check_and_count_asserts cand src = Some (t, p, f, d)"
  shows "p + f = t \<or> (t = 0 \<and> p = 0 \<and> f = 1 \<and> (\<exists>m. d = [(0, False, Some m)]))"
proof (cases src)
  case (ParseFailed e)
  then show ?thesis using assms by (auto simp: run_check_and_count_asserts_def)
next
  case (Module tree)
  obtain st fl where E: "exec_module cand tree = (st, fl)" by (cases "exec_module cand tree")
  show ?thesis
  proof (cases "check_missing st \<or> (\<exists>e. fl = Threw e)")
    case True
    then show ?thesis using assms Module E
      by (auto simp: run_check_and_count_asserts_def split: if_splits flow.splits)
  next
    case False
    then have "\<exists>args body. after_check (call_check cand st args body) = Some (t, p, f, d)"
      using assms Module E
      by (auto simp: run_check_and_count_asserts_def
          split: if_splits flow.splits option.splits pyval.splits)
    then show ?thesis using after_check_adds_up by blast
  qed
qed

lemma run_early_parse:
  "run_check_and_count_asserts cand (ParseFailed e)
   = Some (0, 0, 1, [(0, False, Some (error_text ''Test import error: '' e))])"
  by (simp add: run_check_and_count_asserts_def)

lemma run_early_import:
  "\<forall>s \<in> set tree. \<not> return_outside s \<Longrightarrow> exec_module cand tree = (st, Threw e) \<Longrightarrow>
   run_check_and_count_asserts cand (Module tree)
   = Some (0, 0, 1, [(0, False, Some (error_text ''Test import error: '' e))])"
  by (simp add: run_check_and_count_asserts_def)

lemma run_early_missing:
  "\<forall>s \<in> set tree. \<not> return_outside s \<Longrightarrow> exec_module cand tree = (st, fl) \<Longrightarrow>
   fl = Normal \<or> fl = Returned \<Longrightarrow> check_missing st \<Longrightarrow>
   run_check_and_count_asserts cand (Module tree)
   = Some (0, 0, 1, [(0, False, Some ''Missing check(candidate) in test'')])"
  by (auto simp: run_check_and_count_asserts_def)

lemma run_check_called:
  assumes "\<forall>s \<in> set tree. \<not> return_outside s" and "exec_module cand tree = (st, fl)"
    and "fl = Normal \<or> fl = Returned"
    and "map_of (globs st) ''check'' = Some (Func name args body)"
  shows "run_check_and_count_asserts cand (Module tree) = after_check (call_check cand st args body)"
  using assms by (auto simp: run_check_and_count_asserts_def check_missing_def)

lemma run_check_completes:
  assumes "\<forall>s \<in> set tree. \<not> return_outside s" and "exec_module cand tree = (st, fl)"
    and "fl = Normal \<or> fl = Returned"
    and "map_of (globs st) ''check'' = Some (Func name args body)"
    and "call_check cand st args body = (st', fl')" and "fl' = Normal \<or> fl' = Returned"
  shows "run_check_and_count_asserts cand (Module tree) = Some (count_records (recs st'))"
  using run_check_called[OF assms(1-4)] assms(5,6) by (auto simp: after_check_def)

lemma run_check_raises:
  assumes "\<forall>s \<in> set tree. \<not> return_outside s" and "exec_module cand tree = (st, fl)"
    and "fl = Normal \<or> fl = Returned"
    and "map_of (globs st) ''check'' = Some (Func name args body)"
    and "call_check cand st args body = (st', Threw x)"
  shows "run_check_and_count_asserts cand (Module tree)
         = Some (count_records (recs st' @ [(0, False, Some (error_text ''Runtime error: '' x))]))"
  using run_check_called[OF assms(1-4)] assms(5) by (simp add: after_check_def)

lemma run_check_adds_up:
  assumes "\<forall>s \<in> set tree. \<not> return_outside s" and "exec_module cand tree = (st, fl)"
    and "fl = Normal \<or> fl = Returned"
    and "map_of (globs st) ''check'' = Some (Func name args body)"
    and "call_check cand st args body = (st', fl')"
    and "run_check_and_count_asserts cand (Module tree) = Some (t, p, f, d)"
  shows "p + f = t \<and> f = length d
         \<and> t = length (recs st') + (if fl' = Normal \<or> fl' = Returned then 0 else 1)"
proof (cases fl')
  case Normal
  then show ?thesis
    using run_check_completes[OF assms(1-5)] assms(6) count_records_total[of "recs st'" t p f d]
    by simp
next
  case Returned
  then show ?thesis
    using run_check_completes[OF assms(1-5)] assms(6) count_records_total[of "recs st'" t p f d]
    by simp
next
  case (Threw x)
  then show ?thesis
    using run_check_raises[OF assms(1-4), of st' x] assms(5,6)
      count_records_total[of "recs st' @ [(0, False, Some (error_text ''Runtime error: '' x))]" t p f d]
    by simp
next
  case Unsup
  then show ?thesis
    using run_check_called[OF assms(1-4)] assms(5,6) by (simp add: after_check_def)
qed

text \<open>
  Claim C4, as the code has it.  The counts are taken over all records: \<open>total\<close> is
  the number of records, \<open>passed + failed = total\<close>, and \<open>failed\<close> is the number
  of failures listed; a synthetic failing record is a record like the others and adds one
  to \<open>total\<close> and one to \<open>failed\<close>.  When the test source does not parse, when
  the execution of the rewritten module raises, and when it ends without a check function
  in the namespace, the executor returns \<open>total = 0\<close>, \<open>passed = 0\<close>,
  \<open>failed = 1\<close> with the one synthetic record of that case, so that
  \<open>passed + failed = total + 1\<close>.  When the module ends with a check function, the
  executor calls it and returns the counts of the records made: of exactly these when the
  call completes, of these and one more, the synthetic runtime-error record, when the call
  raises; in both cases \<open>passed + failed = total\<close>.  Every result of the executor is
  of one of the two kinds.
\<close>

theorem counts_add_up_when_check_runs:
  "(case count_records records of (t, p, f, d) \<Rightarrow> t = length records \<and> p + f = t \<and> f = length d)
   \<and> count_records (records @ [(0, False, m)])
       = (case count_records records of (t, p, f, d) \<Rightarrow> (Suc t, p, Suc f, d @ [(0, False, m)]))
   \<and> run_check_and_count_asserts cand (ParseFailed e)
       = Some (0, 0, 1, [(0, False, Some (error_text ''Test import error: '' e))])
   \<and> ((\<forall>s \<in> set tree. \<not> return_outside s) \<and> exec_module cand tree = (st, fl) \<longrightarrow>
        (fl = Threw e \<longrightarrow>
           run_check_and_count_asserts cand (Module tree)
           = Some (0, 0, 1, [(0, False, Some (error_text ''Test import error: '' e))]))
        \<and> ((fl = Normal \<or> fl = Returned) \<and> check_missing st \<longrightarrow>
           run_check_and_count_asserts cand (Module tree)
           = Some (0, 0, 1, [(0, False, Some ''Missing check(candidate) in test'')]))
        \<and> ((fl = Normal \<or> fl = Returned)
             \<and> map_of (globs st) ''check'' = Some (Func name args body)
             \<and> call_check cand st args body = (st', fl') \<longrightarrow>
           (fl' = Normal \<or> fl' = Returned \<longrightarrow>
              run_check_and_count_asserts cand (Module tree) = Some (count_records (recs st')))
           \<and> (fl' = Threw x \<longrightarrow>
              run_check_and_count_asserts cand (Module tree)
              = Some (count_records (recs st' @ [(0, False, Some (error_text ''Runtime error: '' x))])))
           \<and> (run_check_and_count_asserts cand (Module tree) = Some (t', p', f', d') \<longrightarrow>
              p' + f' = t' \<and> f' = length d'
              \<and> t' = length (recs st') + (if fl' = Normal \<or> fl' = Returned then 0 else 1))))
   \<and> (run_check_and_count_asserts cand src = Some (t', p', f', d') \<longrightarrow>
         p' + f' = t' \<or> (t' = 0 \<and> p' = 0 \<and> f' = 1 \<and> (\<exists>m. d' = [(0, False, Some m)])))"
proof -
  have a: "case count_records records of (t, p, f, d) \<Rightarrow> t = length records \<and> p + f = t \<and> f = length d"
    using count_records_total[of records] by (cases "count_records records") auto
  have b: "(\<forall>s \<in> set tree. \<not> return_outside s) \<and> exec_module cand tree = (st, fl) \<longrightarrow>
        (fl = Threw e \<longrightarrow>
           run_check_and_count_asserts cand (Module tree)
           = Some (0, 0, 1, [(0, False, Some (error_text ''Test import error: '' e))]))
        \<and> ((fl = Normal \<or> fl = Returned) \<and> check_missing st \<longrightarrow>
           run_check_and_count_asserts cand (Module tree)
           = Some (0, 0, 1, [(0, False, Some ''Missing check(candidate) in test'')]))
        \<and> ((fl = Normal \<or> fl = Returned)
             \<and> map_of (globs st) ''check'' = Some (Func name args body)
             \<and> call_check cand st args body = (st', fl') \<longrightarrow>
           (fl' = Normal \<or> fl' = Returned \<longrightarrow>
              run_check_and_count_asserts cand (Module tree) = Some (count_records (recs st')))
           \<and> (fl' = Threw x \<longrightarrow>
              run_check_and_count_asserts cand (Module tree)
              = Some (count_records (recs st' @ [(0, False, Some (error_text ''Runtime error: '' x))])))
           \<and> (run_check_and_count_asserts cand (Module tree) = Some (t', p', f', d') \<longrightarrow>
              p' + f' = t' \<and> f' = length d'
              \<and> t' = length (recs st') + (if fl' = Normal \<or> fl' = Returned then 0 else 1)))"
    using run_early_import[of tree cand st e] run_early_missing[of tree cand st fl]
      run_check_completes[of tree cand st fl name args body st' fl']
      run_check_raises[of tree cand st fl name args body st' x]
      run_check_adds_up[of tree cand st fl name args body st' fl' t' p' f' d']
    by blast
  have c: "run_check_and_count_asserts cand src = Some (t', p', f', d') \<longrightarrow>
         p' + f' = t' \<or> (t' = 0 \<and> p' = 0 \<and> f' = 1 \<and> (\<exists>m. d' = [(0, False, Some m)]))"
    using run_adds_up_or_synthetic[of cand src t' p' f' d'] by blast
  from a count_records_snoc_failure[of records m] run_early_parse[of cand e] b c
  show ?thesis by (intro conjI)
qed

theorem counts_add_up_when_check_runs_witness:
  "exec_module first_arg two_test = (two_loaded, Normal)
   \<and> call_check first_arg two_loaded [''candidate''] (map AssertRecorder two_asserts)
       = (two_loaded\<lparr>locs := [(''candidate'', Candidate)],
                      recs := [(2, True, None), (3, False, None)]\<rparr>, Normal)
   \<and> run_check_and_count_asserts first_arg (Module two_test) = Some (2, 1, 1, [(3, False, None)])
   \<and> exec_module raising calling_check = (calling_loaded, Normal)
   \<and> call_check raising calling_loaded [''candidate''] [Expr (Call (Name ''candidate'') [])]
       = (calling_loaded\<lparr>locs := [(''candidate'', Candidate)]\<rparr>, Threw (''ValueError'', ''bad''))
   \<and> run_check_and_count_asserts raising (Module calling_check)
       = Some (1, 0, 1, [(0, False, Some ''Runtime error: ValueError: bad'')])
   \<and> exec_module first_arg helper_only = (helper_loaded, Normal)
   \<and> check_missing helper_loaded
   \<and> run_check_and_count_asserts first_arg (Module helper_only)
       = Some (0, 0, 1, [(0, False, Some ''Missing check(candidate) in test'')])"
proof -
  let ?st2 = "two_loaded\<lparr>locs := [(''candidate'', Candidate)],
                        recs := [(2, True, None), (3, False, None)]\<rparr>"
  let ?stc = "calling_loaded\<lparr>locs := [(''candidate'', Candidate)]\<rparr>"
  have r2: "\<forall>s \<in> set two_test. \<not> return_outside s"
    and rc: "\<forall>s \<in> set calling_check. \<not> return_outside s"
    and rh: "\<forall>s \<in> set helper_only. \<not> return_outside s"
    by (simp_all add: two_test_def calling_check_def helper_only_def)
  have e2: "exec_module first_arg two_test = (two_loaded, Normal)"
    by (simp add: exec_module_def two_test_def instrument_test_code_def is_check_def
        initial_state_def bind_def two_loaded_def)
  have g2: "map_of (globs two_loaded) ''check''
            = Some (Func ''check'' [''candidate''] (map AssertRecorder two_asserts))"
    by (simp add: two_loaded_def)
  have c2: "call_check first_arg two_loaded [''candidate''] (map AssertRecorder two_asserts)
            = (?st2, Normal)"
    by (simp add: call_check_def local_names_def eval_in_def lookup_def first_arg_def
        two_loaded_def two_asserts_def msg_or_none_def)
  have ec: "exec_module raising calling_check = (calling_loaded, Normal)"
    by (simp add: exec_module_def calling_check_def instrument_test_code_def is_check_def
        initial_state_def bind_def calling_loaded_def)
  have gc: "map_of (globs calling_loaded) ''check''
            = Some (Func ''check'' [''candidate''] [Expr (Call (Name ''candidate'') [])])"
    by (simp add: calling_loaded_def)
  have cc: "call_check raising calling_loaded [''candidate''] [Expr (Call (Name ''candidate'') [])]
            = (?stc, Threw (''ValueError'', ''bad''))"
    by (simp add: call_check_def local_names_def eval_in_def lookup_def raising_def
        calling_loaded_def)
  have eh: "exec_module first_arg helper_only = (helper_loaded, Normal)"
    by (simp add: exec_module_def helper_only_def instrument_test_code_def is_check_def
        initial_state_def bind_def helper_loaded_def)
  have mh: "check_missing helper_loaded"
    by (simp add: check_missing_def helper_loaded_def)
  from counts_add_up_when_check_runs[of _ _ first_arg _ two_test two_loaded Normal
      "''check''" "[''candidate'']" "map AssertRecorder two_asserts" ?st2 Normal] r2 e2 g2 c2
  have "run_check_and_count_asserts first_arg (Module two_test)
        = Some (count_records (recs ?st2))"
    by blast
  then have a: "run_check_and_count_asserts first_arg (Module two_test)
        = Some (2, 1, 1, [(3, False, None)])"
    by (simp add: count_records_def)
  from counts_add_up_when_check_runs[of _ _ raising _ calling_check calling_loaded Normal
      "''check''" "[''candidate'']" "[Expr (Call (Name ''candidate'') [])]" ?stc
      "Threw (''ValueError'', ''bad'')" "(''ValueError'', ''bad'')"] rc ec gc cc
  have "run_check_and_count_asserts raising (Module calling_check)
        = Some (count_records (recs ?stc
             @ [(0, False, Some (error_text ''Runtime error: '' (''ValueError'', ''bad'')))]))"
    by blast
  then have b: "run_check_and_count_asserts raising (Module calling_check)
        = Some (1, 0, 1, [(0, False, Some ''Runtime error: ValueError: bad'')])"
    by (simp add: count_records_def calling_loaded_def error_text_def)
  from counts_add_up_when_check_runs[of _ _ first_arg _ helper_only helper_loaded Normal] rh eh mh
  have c: "run_check_and_count_asserts first_arg (Module helper_only)
        = Some (0, 0, 1, [(0, False, Some ''Missing check(candidate) in test'')])"
    by blast
  from e2 c2 a ec cc b eh mh c show ?thesis by (intro conjI)
qed

text \<open>
  The claim as the specification words it fails in both of its parts: without a check
  function the counts are 0, 0 and 1, which do not add up; and the synthetic record of a
  check routine that raises is counted in \<open>total\<close>, not left out of it.
\<close>

theorem counts_counterexample:
  "run_check_and_count_asserts first_arg (Module helper_only)
     = Some (0, 0, 1, [(0, False, Some ''Missing check(candidate) in test'')])
   \<and> (0::nat) + 1 \<noteq> 0
   \<and> run_check_and_count_asserts raising (Module calling_check)
     = Some (1, 0, 1, [(0, False, Some ''Runtime error: ValueError: bad'')])"
proof -
  have a: "run_check_and_count_asserts first_arg (Module helper_only)
     = Some (0, 0, 1, [(0, False, Some ''Missing check(candidate) in test'')])"
    by code_simp
  have b: "run_check_and_count_asserts raising (Module calling_check)
     = Some (1, 0, 1, [(0, False, Some ''Runtime error: ValueError: bad'')])"
    by code_simp
  from a b show ?thesis by simp
qed

text \<open>
  Claim C8.  When the rewritten test module has run to its end (it compiles, and its
  execution neither raises nor leaves the fragment) and the namespace then binds no function
  to the name \<^verbatim>\<open>check\<close>, the executor returns \<open>total = 0\<close>, \<open>passed = 0\<close>,
  \<open>failed = 1\<close> and the single record \<^verbatim>\<open>(0, False, "Missing check(candidate) in test")\<close>.
\<close>

theorem missing_check_is_one_failure:
  assumes "exec_module cand tree = (st, fl)"
    and "\<forall>s \<in> set tree. \<not> return_outside s"
    and "fl = Normal \<or> fl = Returned"
    and "check_missing st"
  shows "run_check_and_count_asserts cand (Module tree)
         = Some (0, 0, 1, [(0, False, Some ''Missing check(candidate) in test'')])"
  using assms by (auto simp: run_check_and_count_asserts_def)

theorem missing_check_is_one_failure_witness:
  "exec_module first_arg helper_only
     = (\<lparr>globs = [(''helper'', Func ''helper'' [''x''] [Assert (Name ''x'') None 2]), (''__rec'', Hook)],
         locs = [], recs = []\<rparr>, Normal)
   \<and> \<not> return_outside (FunctionDef ''helper'' [''x''] [Assert (Name ''x'') None 2])
   \<and> check_missing
        \<lparr>globs = [(''helper'', Func ''helper'' [''x''] [Assert (Name ''x'') None 2]), (''__rec'', Hook)],
         locs = [], recs = []\<rparr>
   \<and> run_check_and_count_asserts first_arg (Module helper_only)
     = Some (0, 0, 1, [(0, False, Some ''Missing check(candidate) in test'')])"
proof -
  let ?st = "\<lparr>globs = [(''helper'', Func ''helper'' [''x''] [Assert (Name ''x'') None 2]), (''__rec'', Hook)],
              locs = [], recs = []\<rparr>"
  have e: "exec_module first_arg helper_only = (?st, Normal)"
    by (simp add: exec_module_def helper_only_def instrument_test_code_def is_check_def
        initial_state_def bind_def)
  have r: "\<forall>s \<in> set helper_only. \<not> return_outside s"
    by (simp add: helper_only_def)
  have m: "check_missing ?st"
    by (simp add: check_missing_def)
  have "run_check_and_count_asserts first_arg (Module helper_only)
     = Some (0, 0, 1, [(0, False, Some ''Missing check(candidate) in test'')])"
    by (rule missing_check_is_one_failure[OF e r _ m]) simp
  with e m show ?thesis by simp
qed

subsection \<open>The batch loop\<close>

text \<open>
  Claim C7, as the code has it.  For a solution file whose problem is in the dataset and
  whose module loads but has no attribute of the entry point's name, the loop does not run
  the tests; it prints a line with the status \<^verbatim>\<open>FAIL\<close>, the asserts column
  \<^verbatim>\<open>0/0\<close> and the remark that the entry point is missing, and it adds one to
  \<open>grand_fail\<close>: the file is counted as a failure.  \<open>grand_total\<close> (the problems
  tested) and \<open>grand_pass\<close> are unchanged.
\<close>

theorem missing_entry_point_counts_as_failure:
  assumes "sol_id sol = Some problem_id" and "map_of problems problem_id = Some p"
    and "sol_module sol = Inr attrs" and "map_of attrs (entry_point p) = None"
  shows "process_solution problems st sol =
     Some (st\<lparr>grand_fail := grand_fail st + 1,
              printed := printed st
                @ [(Some problem_id, sol_name sol, ''0/0'', FAIL,
                    ''(missing `'' @ entry_point p @ ''`)'')]\<rparr>)
     \<and> (\<forall>st'. process_solution problems st sol = Some st' \<longrightarrow>
           grand_total st' = grand_total st \<and> grand_pass st' = grand_pass st
           \<and> grand_fail st' = grand_fail st + 1)"
  using assms by (simp add: process_solution_def)

theorem missing_entry_point_counts_as_failure_witness:
  "sol_id no_entry_solution = Some 7
   \<and> map_of example_problems 7 = Some \<lparr>entry_point = ''solve'', test = Module five_test\<rparr>
   \<and> process_solution example_problems start_totals no_entry_solution =
       Some \<lparr>grand_total = 0, grand_pass = 0, grand_fail = 1,
             printed = [(Some 7, ''humaneval_7_openai_attempt_001_base.py'', ''0/0'', FAIL,
                         ''(missing `solve`)'')]\<rparr>"
proof -
  have a: "sol_id no_entry_solution = Some 7"
    and b: "map_of example_problems 7 = Some \<lparr>entry_point = ''solve'', test = Module five_test\<rparr>"
    and c: "sol_module no_entry_solution = Inr [(''other'', first_arg)]"
    and d: "map_of [(''other'', first_arg)] (entry_point \<lparr>entry_point = ''solve'', test = Module five_test\<rparr>) = None"
    by (simp_all add: no_entry_solution_def example_problems_def)
  from missing_entry_point_counts_as_failure[OF a b c d, of start_totals]
  have "process_solution example_problems start_totals no_entry_solution =
       Some \<lparr>grand_total = 0, grand_pass = 0, grand_fail = 1,
             printed = [(Some 7, ''humaneval_7_openai_attempt_001_base.py'', ''0/0'', FAIL,
                         ''(missing `solve`)'')]\<rparr>"
    by (simp add: start_totals_def no_entry_solution_def)
  with a b show ?thesis by (intro conjI)
qed

text \<open>
  The claim as the specification words it (the file is skipped and not counted as a
  failure) fails: a run over one such file ends with \<open>grand_fail = 1\<close>, whereas a file
  whose number is not in the dataset is skipped with \<open>grand_fail = 0\<close>.
\<close>

theorem missing_entry_point_counterexample:
  "main_loop example_problems start_totals [no_entry_solution] =
       Some \<lparr>grand_total = 0, grand_pass = 0, grand_fail = 1,
             printed = [(Some 7, ''humaneval_7_openai_attempt_001_base.py'', ''0/0'', FAIL,
                         ''(missing `solve`)'')]\<rparr>
   \<and> main_loop example_problems start_totals [unknown_solution] =
       Some \<lparr>grand_total = 0, grand_pass = 0, grand_fail = 0,
             printed = [(Some 999, ''humaneval_999_openai_attempt_001_base.py'', ''-'', SKIP,
                         ''(not in dataset)'')]\<rparr>"
  by (simp add: process_solution_def start_totals_def no_entry_solution_def unknown_solution_def
      example_problems_def)

end
